theory Spec2Isabelle
  imports Complex_Main
begin

section \<open>Phylogenetic trees as the scripts see them\<close>

text \<open>
  Both scripts load a Newick file with the ete3 library and then only read the tree: node
  names, children, the parent pointer \<^verbatim>\<open>up\<close>, leaf names and the common ancestor of a list
  of nodes. The one mutation is the renaming pass of \<^verbatim>\<open>assign_internal_node_names\<close>.

  A \<open>tree\<close> is the immutable content of a subtree (name and ordered children; branch lengths
  are never read). A \<open>node\<close> is a handle on one node object: its subtree, its position among
  the children of its parent, and the handle of the parent (\<open>None\<close> at the root), which is
  what ete3's \<^verbatim>\<open>up\<close> attribute holds. ete3 nodes compare by object identity; two handles into
  the same tree are equal exactly when they denote the same position.
\<close>

datatype tree = Node (name: string) (children: "tree list")

datatype node = TreeNode (pos: nat) (sub: tree) (up: "node option")

datatype error = TreeError | AttributeError | ZeroDivisionError

definition is_leaf :: "node \<Rightarrow> bool" where
  "is_leaf n = (children (sub n) = [])"

definition child_nodes :: "node \<Rightarrow> node list" where
  "child_nodes n = map (\<lambda>(i, c). TreeNode i c (Some n)) (enumerate 0 (children (sub n)))"

definition root_node :: "tree \<Rightarrow> node" where
  "root_node t = TreeNode 0 t None"

fun weight :: "tree \<Rightarrow> nat" where
  "weight (Node a cs) = Suc (sum_list (map weight cs))"

text \<open>
  \<^verbatim>\<open>tree.traverse()\<close> with ete3's default strategy, level order: a queue that starts with
  the root; the node popped from the left is yielded and its children are appended.
\<close>

function levelorder :: "node list \<Rightarrow> node list" where
  "levelorder [] = []"
| "levelorder (n # tovisit) = n # levelorder (tovisit @ child_nodes n)"
  by pat_completeness auto

termination levelorder
proof (relation "measure (\<lambda>q. sum_list (map (weight \<circ> sub) q))")
  show "wf (measure (\<lambda>q. sum_list (map (weight \<circ> sub) q)))"
    by simp
next
  fix n :: node and tovisit :: "node list"
  have "map sub (child_nodes n) = map snd (enumerate 0 (children (sub n)))"
    by (simp add: child_nodes_def case_prod_unfold comp_def)
  then have "map sub (child_nodes n) = children (sub n)"
    by simp
  then have "map (weight \<circ> sub) (child_nodes n) = map weight (children (sub n))"
    by (metis map_map)
  then have "sum_list (map (weight \<circ> sub) (child_nodes n)) < weight (sub n)"
    by (cases "sub n") simp
  then show "(tovisit @ child_nodes n, n # tovisit)
               \<in> measure (\<lambda>q. sum_list (map (weight \<circ> sub) q))"
    by simp
qed

definition traverse :: "tree \<Rightarrow> node list" where
  "traverse t = levelorder [root_node t]"

text \<open>
  \<^verbatim>\<open>node.get_leaf_names()\<close>: the names of the leaves below the node in preorder; a node
  without children is its own only leaf.
\<close>

fun get_leaf_names :: "tree \<Rightarrow> string list" where
  "get_leaf_names (Node a cs) = (if cs = [] then [a] else concat (map get_leaf_names cs))"

text \<open>The chain \<^verbatim>\<open>n, n.up, n.up.up, ...\<close> up to the root.\<close>

fun ancestors :: "node \<Rightarrow> node list" where
  "ancestors (TreeNode i s None) = [TreeNode i s None]"
| "ancestors (TreeNode i s (Some p)) = TreeNode i s (Some p) # ancestors p"

text \<open>
  \<^verbatim>\<open>self.get_common_ancestor(target_nodes)\<close> of ete3, called on the root with a list of node
  objects. ete3 first turns a list of exactly one node into the pair of that node and
  \<^verbatim>\<open>self\<close>. It then records the ancestor chain of every target, takes the chain of the first
  target as the reference and returns the first node of the reference that lies on the chain
  of every other target; it raises \<^verbatim>\<open>TreeError\<close> when there is none (also for no target).
\<close>

definition get_common_ancestor :: "node \<Rightarrow> node list \<Rightarrow> error + node" where
  "get_common_ancestor self target_nodes =
     (let targets = (case target_nodes of [t] \<Rightarrow> [t, self] | _ \<Rightarrow> target_nodes)
      in case targets of
           [] \<Rightarrow> Inl TreeError
         | ref_node # _ \<Rightarrow>
             (case find (\<lambda>n. list_all (\<lambda>t. t = ref_node \<or> n \<in> set (ancestors t)) targets)
                        (ancestors ref_node) of
                None \<Rightarrow> Inl TreeError
              | Some common \<Rightarrow> Inr common))"

text \<open>
  \<^verbatim>\<open>tree & value\<close>: the first node in traversal order whose name is the value, or
  \<^verbatim>\<open>TreeError\<close>.
\<close>

definition tree_and :: "tree \<Rightarrow> string \<Rightarrow> error + node" where
  "tree_and t v =
     (case find (\<lambda>n. name (sub n) = v) (traverse t) of
        None \<Rightarrow> Inl TreeError
      | Some n \<Rightarrow> Inr n)"

section \<open>find\_mrca.py\<close>

subsection \<open>assign\_internal\_node\_names\<close>

text \<open>
  The renaming pass mutates the names of the tree it traverses. The tree is the state; a node
  of the traversal is addressed in it by its path from the root (the child positions), and
  \<^verbatim>\<open>node.name\<close> is read from the current state. A path that does not exist in the tree has no
  name; traversal nodes always exist.
\<close>

fun path_of :: "node \<Rightarrow> nat list" where
  "path_of (TreeNode i s None) = []"
| "path_of (TreeNode i s (Some p)) = path_of p @ [i]"

fun name_at :: "tree \<Rightarrow> nat list \<Rightarrow> string option" where
  "name_at t [] = Some (name t)"
| "name_at t (i # is) =
     (if i < length (children t) then name_at (children t ! i) is else None)"

fun set_name :: "tree \<Rightarrow> nat list \<Rightarrow> string \<Rightarrow> tree" where
  "set_name t [] s = Node s (children t)"
| "set_name t (i # is) s =
     (if i < length (children t)
      then Node (name t) ((children t)[i := set_name (children t ! i) is s])
      else t)"

text \<open>Python's \<^verbatim>\<open>str\<close> of a non-negative integer, for the f-string \<^verbatim>\<open>Internal_{counter}\<close>.\<close>

fun str_nat :: "nat \<Rightarrow> string" where
  "str_nat n =
     (if n < 10 then [''0123456789'' ! n]
      else str_nat (n div 10) @ [''0123456789'' ! (n mod 10)])"

declare str_nat.simps [simp del]

definition all_annotated :: "tree \<Rightarrow> bool" where
  "all_annotated t = list_all (\<lambda>n. name (sub n) \<noteq> []) (filter (\<lambda>n. \<not> is_leaf n) (traverse t))"

fun assign_loop :: "node list \<Rightarrow> tree \<Rightarrow> nat \<Rightarrow> tree" where
  "assign_loop [] t counter = t"
| "assign_loop (n # ns) t counter =
     (if name_at t (path_of n) = Some []
      then assign_loop ns (set_name t (path_of n) (''Internal_'' @ str_nat counter)) (counter + 1)
      else assign_loop ns t counter)"

text \<open>
  The result is the tree after the pass, the returned flag, and what was printed.
\<close>

definition assign_internal_node_names :: "tree \<Rightarrow> tree \<times> bool \<times> string list" where
  "assign_internal_node_names t =
     (if all_annotated t
      then (t, False, [''All internal nodes are already annotated. No need to rewrite the tree.''])
      else (assign_loop (traverse t) t 1, True, []))"

subsection \<open>The loop body of find\_mrca\<close>

text \<open>
  The metric column of a result row is a Python string (a flag text, or the coverage formatted
  with \<^verbatim>\<open>.2f\<close>) or the activation vector, a list of floats. The command line admits only
  the two methods.
\<close>

datatype metric = Text string | Activation "rat list"

datatype metric_method = species_percentage | node_activation

type_synonym taxon_index = "string \<rightharpoonup> node list"

definition add_taxon :: "taxon_index \<Rightarrow> node \<Rightarrow> taxon_index" where
  "add_taxon taxon_nodes n =
     (if name (sub n) \<noteq> []
      then taxon_nodes(name (sub n) \<mapsto>
             (case taxon_nodes (name (sub n)) of None \<Rightarrow> [] | Some ns \<Rightarrow> ns) @ [n])
      else taxon_nodes)"

definition build_taxon_nodes :: "tree \<Rightarrow> taxon_index" where
  "build_taxon_nodes t = foldl add_taxon Map.empty (traverse t)"

definition valid_taxids :: "string list \<Rightarrow> string list" where
  "valid_taxids taxids = filter (\<lambda>taxid. taxid \<notin> {''no_hit'', ''no_valid_taxid''}) taxids"

definition candidate_taxa :: "taxon_index \<Rightarrow> node \<Rightarrow> string list \<Rightarrow> node list list" where
  "candidate_taxa taxon_nodes anchor_node valid =
     List.map_filter taxon_nodes valid @ [[anchor_node]]"

text \<open>
  The loop that fills \<^verbatim>\<open>observed_leaves\<close>; it prints a warning for every identifier
  without an entry in \<^verbatim>\<open>taxon_nodes\<close>. The state is the set and the lines printed so far.
\<close>

fun observe :: "taxon_index \<Rightarrow> string list \<Rightarrow> string set \<times> string list
                  \<Rightarrow> string set \<times> string list" where
  "observe taxon_nodes [] st = st"
| "observe taxon_nodes (tid # tids) (observed_leaves, printed) =
     (case taxon_nodes tid of
        Some ns \<Rightarrow>
          observe taxon_nodes tids
            (foldl (\<lambda>acc n. acc \<union> set (get_leaf_names (sub n))) observed_leaves ns, printed)
      | None \<Rightarrow>
          observe taxon_nodes tids
            (observed_leaves,
             printed @ [''Warning: taxid '' @ tid @ '' not found in taxon_nodes'']))"

text \<open>
  Python's \<^verbatim>\<open>a / b\<close> on two set sizes: \<^verbatim>\<open>ZeroDivisionError\<close> for a zero divisor, otherwise
  a float, which the model keeps as the exact quotient. \<open>ratio\<close> is the guarded expression
  \<^verbatim>\<open>(a / b) if b > 0 else 0\<close> that both methods use.
\<close>

definition truediv :: "nat \<Rightarrow> nat \<Rightarrow> error + rat" where
  "truediv a b = (if b = 0 then Inl ZeroDivisionError else Inr (of_nat a / of_nat b))"

definition ratio :: "nat \<Rightarrow> nat \<Rightarrow> error + rat" where
  "ratio observed_count total_count =
     (if total_count > 0 then truediv observed_count total_count else Inr 0)"

text \<open>
  \<^verbatim>\<open>coverage_percentage\<close> as computed from the list \<^verbatim>\<open>mrca.get_leaf_names()\<close> and the
  observed leaves.
\<close>

definition coverage_percentage :: "string list \<Rightarrow> string set \<Rightarrow> error + rat" where
  "coverage_percentage leaf_names observed_leaves =
     (let leaves_under_mrca = set leaf_names;
          observed_count = card (leaves_under_mrca \<inter> observed_leaves);
          total_count = card leaves_under_mrca
      in ratio observed_count total_count)"

text \<open>
  The f-string \<^verbatim>\<open>{coverage_percentage:.2f}\<close> for a value between 0 and 1: the number of
  hundredths nearest to the value, then one digit, the point and two digits. Python formats
  the double nearest to the quotient. For set sizes below two to the power 45 that double lies on the
  same side of every rounding boundary as the exact quotient, unless the quotient is itself a
  boundary \<open>(2n + 1) / 200\<close>; there the double decides (it is above the boundary, or equal to
  it with \<open>n\<close> odd, exactly for the \<open>n\<close> listed in \<open>ties_up\<close>: \<^verbatim>\<open>0.005\<close> gives \<^verbatim>\<open>0.01\<close>,
  \<^verbatim>\<open>0.125\<close> gives \<^verbatim>\<open>0.12\<close>).
\<close>

definition ties_up :: "nat list" where
  "ties_up = [0, 2, 3, 5, 6, 8, 9, 11, 13, 16, 19, 22, 25, 26, 27, 31, 32, 33, 37, 38, 39, 40,
              44, 45, 46, 50, 51, 52, 53, 54, 55, 63, 64, 65, 66, 67, 68, 75, 76, 77, 78, 79,
              80, 87, 88, 89, 90, 91, 92, 93]"

definition hundredths :: "rat \<Rightarrow> nat" where
  "hundredths x =
     (let n = nat \<lfloor>x * 100\<rfloor>;
          rest = x * 100 - of_nat n
      in if rest < 1 / 2 then n
         else if rest > 1 / 2 then n + 1
         else if n \<in> set ties_up then n + 1 else n)"

definition format_2f :: "rat \<Rightarrow> string" where
  "format_2f x =
     (let k = hundredths x
      in str_nat (k div 100) @ ''.'' @
         [''0123456789'' ! (k mod 100 div 10), ''0123456789'' ! (k mod 10)])"

text \<open>
  The walk \<^verbatim>\<open>while current_node != mrca: ...; current_node = current_node.up\<close>. Above the
  root \<^verbatim>\<open>up\<close> is \<^verbatim>\<open>None\<close>, which differs from the MRCA and has no \<^verbatim>\<open>up\<close>: Python raises
  \<^verbatim>\<open>AttributeError\<close>.
\<close>

fun path_to_mrca :: "node \<Rightarrow> node \<Rightarrow> error + node list" where
  "path_to_mrca (TreeNode i s None) mrca =
     (if TreeNode i s None = mrca then Inr [mrca] else Inl AttributeError)"
| "path_to_mrca (TreeNode i s (Some p)) mrca =
     (if TreeNode i s (Some p) = mrca then Inr [mrca]
      else case path_to_mrca p mrca of
             Inl e \<Rightarrow> Inl e
           | Inr path \<Rightarrow> Inr (TreeNode i s (Some p) # path))"

fun activation_vector :: "node list \<Rightarrow> string set \<Rightarrow> string set \<Rightarrow> error + rat list" where
  "activation_vector [] observed_leaves leaves_seen = Inr []"
| "activation_vector (n # path) observed_leaves leaves_seen =
     (let leaves_under_node = set (get_leaf_names (sub n));
          new_species = leaves_under_node - leaves_seen;
          observed_in_new_species = card (new_species \<inter> observed_leaves);
          total_new_species = card new_species
      in case ratio observed_in_new_species total_new_species of
           Inl e \<Rightarrow> Inl e
         | Inr proportion_new_species \<Rightarrow>
             (case activation_vector path observed_leaves (leaves_seen \<union> leaves_under_node) of
                Inl e \<Rightarrow> Inl e
              | Inr rest \<Rightarrow> Inr (proportion_new_species # rest)))"

text \<open>
  One iteration of the loop over the queries: the values of \<^verbatim>\<open>mrca\<close> and \<^verbatim>\<open>metric\<close> when
  the row is appended, and the lines printed. \<open>Inl\<close> is an exception leaving the loop.
\<close>

definition find_mrca_query ::
    "node \<Rightarrow> taxon_index \<Rightarrow> node \<Rightarrow> metric_method \<Rightarrow> string \<times> string list
       \<Rightarrow> error + (node option \<times> metric \<times> string list)" where
  "find_mrca_query tree taxon_nodes anchor_node method q =
     (case q of (qseqid, taxids) \<Rightarrow>
        let valid = valid_taxids taxids in
        if valid = [] \<and> list_all (\<lambda>taxid. taxid = ''no_hit'') taxids
        then Inr (Some anchor_node, Text ''Assigned to focal species (no_hit)'', [])
        else if valid = [] \<and> list_all (\<lambda>taxid. taxid = ''no_valid_taxid'') taxids
        then Inr (Some anchor_node, Text ''Assigned to focal species (no_valid_taxid)'',
                  [''Warning: Query '' @ qseqid @ '' hit a synthetic construct or was malformed.''])
        else
          let taxa = candidate_taxa taxon_nodes anchor_node valid in
          if taxa \<noteq> []
          then
            (case get_common_ancestor tree (concat taxa) of
               Inl e \<Rightarrow> Inl e
             | Inr mrca \<Rightarrow>
                 (case observe taxon_nodes valid ({}, []) of (observed_leaves, printed) \<Rightarrow>
                    (case method of
                       species_percentage \<Rightarrow>
                         (case coverage_percentage (get_leaf_names (sub mrca)) observed_leaves of
                            Inl e \<Rightarrow> Inl e
                          | Inr coverage \<Rightarrow> Inr (Some mrca, Text (format_2f coverage), printed))
                     | node_activation \<Rightarrow>
                         (case path_to_mrca anchor_node mrca of
                            Inl e \<Rightarrow> Inl e
                          | Inr path_to \<Rightarrow>
                              (case activation_vector path_to observed_leaves {} of
                                 Inl e \<Rightarrow> Inl e
                               | Inr activation \<Rightarrow> Inr (Some mrca, Activation activation, printed))))))
          else Inr (None,
                    (case method of species_percentage \<Rightarrow> Text ''Not found''
                                  | node_activation \<Rightarrow> Activation []),
                    []))"

text \<open>The row appended to \<^verbatim>\<open>results\<close>: query, name of the MRCA, metric.\<close>

definition result_row :: "string \<Rightarrow> node option \<times> metric \<times> string list \<Rightarrow> string \<times> string \<times> metric" where
  "result_row qseqid r =
     (case r of (mrca, metric, printed) \<Rightarrow>
        (qseqid, (case mrca of Some m \<Rightarrow> name (sub m) | None \<Rightarrow> ''Not found''), metric))"

fun query_loop ::
    "node \<Rightarrow> taxon_index \<Rightarrow> node \<Rightarrow> metric_method \<Rightarrow> (string \<times> string list) list
       \<Rightarrow> error + ((string \<times> string \<times> metric) list \<times> string list)" where
  "query_loop tree taxon_nodes anchor_node method [] = Inr ([], [])"
| "query_loop tree taxon_nodes anchor_node method (q # qs) =
     (case find_mrca_query tree taxon_nodes anchor_node method q of
        Inl e \<Rightarrow> Inl e
      | Inr r \<Rightarrow>
          (case query_loop tree taxon_nodes anchor_node method qs of
             Inl e \<Rightarrow> Inl e
           | Inr (results, printed) \<Rightarrow>
               Inr (result_row (fst q) r # results, snd (snd r) @ printed)))"

text \<open>
  A run of \<^verbatim>\<open>find_mrca\<close> on a loaded tree and the items of the loaded query mapping. The
  outcome holds the rows, the warnings and notices printed, and the tree written to
  \<^verbatim>\<open>output_tree\<close> if one was written. The run statistics (totals, most and least found
  MRCA, percentages, timing) are only printed from the rows and are left out, and so is the
  copy of the rows written to the report file.
\<close>

record run =
  results :: "(string \<times> string \<times> metric) list"
  printed :: "string list"
  output_tree :: "tree option"

definition find_mrca :: "tree \<Rightarrow> (string \<times> string list) list \<Rightarrow> string \<Rightarrow> metric_method \<Rightarrow> error + run" where
  "find_mrca tree_file taxid_mapping anchor_specie method =
     (case assign_internal_node_names tree_file of (tree, modified, notice) \<Rightarrow>
        let taxon_nodes = build_taxon_nodes tree in
        case tree_and tree anchor_specie of
          Inl e \<Rightarrow> Inl e
        | Inr anchor_node \<Rightarrow>
            (case query_loop (root_node tree) taxon_nodes anchor_node method taxid_mapping of
               Inl e \<Rightarrow> Inl e
             | Inr (rows, warnings) \<Rightarrow>
                 Inr \<lparr>results = rows,
                      printed = notice @ warnings @
                        (if modified then []
                         else [''The tree was not modified and will not be rewritten.'']),
                      output_tree = (if modified then Some tree else None)\<rparr>))"

section \<open>get\_nr\_subtree.py\<close>

text \<open>
  The two output files are the lists of the strings written to them; every function returns
  the message it hands back to its caller (\<open>None\<close> when it returns nothing) and the files.
  No statement inside the \<^verbatim>\<open>try\<close> blocks can raise on these data (every value of the
  mapping is a pair), so the \<^verbatim>\<open>except\<close> branches have no counterpart.
\<close>

record files =
  old_outfile :: "string list"
  new_outfile :: "string list"

type_synonym mapping = "string \<rightharpoonup> string \<times> string"

definition tab :: string where
  "tab = [CHR 0x09]"

definition newline :: string where
  "newline = [CHR 0x0A]"

text \<open>
  \<^verbatim>\<open>str.strip()\<close> and \<^verbatim>\<open>str.split(sep)\<close> on one-byte characters: the ASCII characters Python
  counts as white space.
\<close>

definition is_space :: "char \<Rightarrow> bool" where
  "is_space c = (c \<in> {CHR 0x20, CHR 0x09, CHR 0x0A, CHR 0x0B, CHR 0x0C, CHR 0x0D,
                        CHR 0x1C, CHR 0x1D, CHR 0x1E, CHR 0x1F})"

definition strip :: "string \<Rightarrow> string" where
  "strip s = rev (dropWhile is_space (rev (dropWhile is_space s)))"

fun split :: "char \<Rightarrow> string \<Rightarrow> string list" where
  "split sep [] = [[]]"
| "split sep (c # cs) =
     (if c = sep then [] # split sep cs
      else case split sep cs of
             w # ws \<Rightarrow> (c # w) # ws
           | [] \<Rightarrow> [[c]])"

definition process_old_mrca :: "string \<Rightarrow> string \<Rightarrow> mapping \<Rightarrow> files \<Rightarrow> string option \<times> files" where
  "process_old_mrca qseqid mrca_name mapping_dict fs =
     (case mapping_dict mrca_name of
        None \<Rightarrow> (Some (qseqid @ tab @ mrca_name @ tab @ ''Not found in mapping'' @ newline), fs)
      | Some (taxon_name, _) \<Rightarrow>
          (None, fs\<lparr>old_outfile := old_outfile fs @ [qseqid @ tab @ taxon_name @ newline]\<rparr>))"

definition process_new_mrca :: "string \<Rightarrow> node \<Rightarrow> bool \<Rightarrow> mapping \<Rightarrow> files \<Rightarrow> string option \<times> files" where
  "process_new_mrca qseqid mrca_node include_topology mapping_dict fs =
     (let mrca_key = name (sub mrca_node) in
      case mapping_dict mrca_key of
        None \<Rightarrow> (Some (qseqid @ tab @ mrca_key @ tab @ ''Not found in mapping'' @ newline), fs)
      | Some (taxon_name, taxid) \<Rightarrow>
          if include_topology
          then (None, fs\<lparr>new_outfile := new_outfile fs @
                        [qseqid @ tab @ taxon_name @ tab @ taxid @ tab @ ''NA'' @ newline]\<rparr>)
          else (None, fs\<lparr>new_outfile := new_outfile fs @
                        [qseqid @ tab @ taxon_name @ tab @ taxid @ newline]\<rparr>))"

text \<open>
  The loop \<^verbatim>\<open>for _ in range(levels_up)\<close>: \<open>None\<close> when a step finds no parent or an unnamed
  parent (the early return of the source), otherwise the node reached.
\<close>

fun climb :: "nat \<Rightarrow> node \<Rightarrow> node option" where
  "climb 0 current_node = Some current_node"
| "climb (Suc k) current_node =
     (case up current_node of
        None \<Rightarrow> None
      | Some parent \<Rightarrow> if name (sub parent) = [] then None else climb k parent)"

text \<open>The dictionary \<^verbatim>\<open>{node.name: node for node in tree.traverse()}\<close>: a later node wins.\<close>

definition original_nodes :: "tree \<Rightarrow> string \<rightharpoonup> node" where
  "original_nodes t = foldl (\<lambda>m n. m(name (sub n) \<mapsto> n)) Map.empty (traverse t)"

definition process_line ::
    "string \<Rightarrow> (string \<rightharpoonup> node) \<Rightarrow> bool \<Rightarrow> mapping \<Rightarrow> int \<Rightarrow> files \<Rightarrow> string option \<times> files" where
  "process_line line nodes include_topology mapping_dict levels_up fs =
     (case split (CHR 0x09) (strip line) of
        [qseqid, mrca_name, _] \<Rightarrow>
          (case nodes mrca_name of
             None \<Rightarrow> (Some (''MRCA '' @ mrca_name @ '' not found in the tree.'' @ newline), fs)
           | Some mrca_node \<Rightarrow>
               (case climb (nat levels_up) mrca_node of
                  None \<Rightarrow> process_old_mrca qseqid mrca_name mapping_dict fs
                | Some current_node \<Rightarrow>
                    (case mapping_dict (name (sub current_node)) of
                       Some (mrca_plusN_taxon, _) \<Rightarrow>
                         if mrca_plusN_taxon = ''Eukaryota''
                         then process_old_mrca qseqid mrca_name mapping_dict fs
                         else process_new_mrca qseqid current_node include_topology mapping_dict fs
                     | None \<Rightarrow>
                         process_new_mrca qseqid current_node include_topology mapping_dict fs)))
      | _ \<Rightarrow> (Some (''Malformed line: '' @ strip line @ newline), fs))"

section \<open>The scenario of the specification\<close>

text \<open>The tree \<^verbatim>\<open>((A:1,B:1)N1:1,(C:1,D:1)N2:1)Root:1;\<close> and its nodes.\<close>

definition scenario_tree :: tree where
  "scenario_tree =
     Node ''Root'' [Node ''N1'' [Node ''A'' [], Node ''B'' []],
                    Node ''N2'' [Node ''C'' [], Node ''D'' []]]"

definition scenario_Root :: node where
  "scenario_Root = root_node scenario_tree"

definition scenario_N1 :: node where
  "scenario_N1 = TreeNode 0 (Node ''N1'' [Node ''A'' [], Node ''B'' []]) (Some scenario_Root)"

definition scenario_A :: node where
  "scenario_A = TreeNode 0 (Node ''A'' []) (Some scenario_N1)"

definition scenario_mapping :: mapping where
  "scenario_mapping = [''N1'' \<mapsto> (''Clade1'', ''100'')]"

section \<open>Auxiliary notions for the statements\<close>

text \<open>
  \<open>node_of t n\<close> says that the handle \<open>n\<close> denotes a node of the tree \<open>t\<close>: its chain of
  parents ends in the root of \<open>t\<close> and every handle on the chain holds the subtree found at its
  position. \<open>depth\<close> counts the edges from a node up to the root, so the number of edges between
  a node and one of its ancestors is the difference of their depths. \<open>leaves_of\<close> is the
  contribution of one identifier to \<^verbatim>\<open>observed_leaves\<close>, and \<open>not_found_warning\<close> the line the
  loop prints for an identifier without an entry. \<open>proportion\<close> and \<open>activation_entries\<close> are
  the values that \<open>ratio\<close> and \<open>activation_vector\<close> return, written without the error
  channel; the lemmas \<open>ratio_eq\<close> and \<open>activation_vector_eq\<close> say so.
\<close>

fun node_of :: "tree \<Rightarrow> node \<Rightarrow> bool" where
  "node_of t (TreeNode i s None) = (i = 0 \<and> s = t)"
| "node_of t (TreeNode i s (Some p)) =
     (i < length (children (sub p)) \<and> children (sub p) ! i = s \<and> node_of t p)"

fun depth :: "node \<Rightarrow> nat" where
  "depth (TreeNode i s None) = 0"
| "depth (TreeNode i s (Some p)) = Suc (depth p)"

definition leaves_of :: "taxon_index \<Rightarrow> string \<Rightarrow> string set" where
  "leaves_of taxon_nodes tid =
     (case taxon_nodes tid of None \<Rightarrow> {} | Some ns \<Rightarrow> (\<Union>n \<in> set ns. set (get_leaf_names (sub n))))"

definition proportion :: "nat \<Rightarrow> nat \<Rightarrow> rat" where
  "proportion a b = (if b > 0 then of_nat a / of_nat b else 0)"

fun activation_entries :: "node list \<Rightarrow> string set \<Rightarrow> string set \<Rightarrow> rat list" where
  "activation_entries [] obs seen = []"
| "activation_entries (n # path) obs seen =
     proportion (card ((set (get_leaf_names (sub n)) - seen) \<inter> obs))
                (card (set (get_leaf_names (sub n)) - seen))
     # activation_entries path obs (seen \<union> set (get_leaf_names (sub n)))"

definition not_found_warning :: "string \<Rightarrow> string" where
  "not_found_warning tid = ''Warning: taxid '' @ tid @ '' not found in taxon_nodes''"

text \<open>
  Further example data: a tree in which \<open>N1\<close> has the single child \<open>A\<close> (so that the step from
  \<open>A\<close> to \<open>N1\<close> brings no new leaf), a tree with an unnamed root, and two collapse mappings.
\<close>

definition chain_tree :: tree where
  "chain_tree =
     Node ''Root'' [Node ''N1'' [Node ''A'' []],
                    Node ''N2'' [Node ''C'' [], Node ''D'' []]]"

definition chain_A :: node where
  "chain_A = TreeNode 0 (Node ''A'' [])
               (Some (TreeNode 0 (Node ''N1'' [Node ''A'' []]) (Some (root_node chain_tree))))"

definition unnamed_tree :: tree where
  "unnamed_tree = Node [] [Node ''A'' [], Node ''N2'' [Node ''C'' [], Node ''D'' []]]"

definition coarse_mapping :: mapping where
  "coarse_mapping = [''A'' \<mapsto> (''Species A'', ''1''), ''Root'' \<mapsto> (''Eukaryota'', ''2759'')]"

definition curated_mapping :: mapping where
  "curated_mapping = [''N1'' \<mapsto> (''Clade1'', ''100''), ''A'' \<mapsto> (''Species A'', ''1'')]"

section \<open>Lemmas about the tree model\<close>

lemma node_of_child_nodes:
  assumes "node_of t n" and "c \<in> set (child_nodes n)"
  shows "node_of t c"
proof -
  from assms(2) obtain i where "i < length (children (sub n))"
    and "c = TreeNode i (children (sub n) ! i) (Some n)"
    by (auto simp: child_nodes_def in_set_enumerate_eq)
  with assms(1) show ?thesis by simp
qed

lemma node_of_levelorder:
  "\<forall>n \<in> set tovisit. node_of t n \<Longrightarrow> \<forall>n \<in> set (levelorder tovisit). node_of t n"
proof (induction tovisit rule: levelorder.induct)
  case 1
  then show ?case by simp
next
  case (2 n tovisit)
  from "2.prems" have n: "node_of t n" and rest: "\<forall>m \<in> set tovisit. node_of t m"
    by simp_all
  have "\<forall>m \<in> set (tovisit @ child_nodes n). node_of t m"
  proof
    fix m
    assume "m \<in> set (tovisit @ child_nodes n)"
    then consider "m \<in> set tovisit" | "m \<in> set (child_nodes n)" by auto
    then show "node_of t m"
      using rest node_of_child_nodes [OF n] by cases blast+
  qed
  then have "\<forall>m \<in> set (levelorder (tovisit @ child_nodes n)). node_of t m"
    by (rule "2.IH")
  with n show ?case by simp
qed

lemma node_of_traverse: "n \<in> set (traverse t) \<Longrightarrow> node_of t n"
proof -
  have "\<forall>m \<in> set [root_node t]. node_of t m" by (simp add: root_node_def)
  then have "\<forall>m \<in> set (levelorder [root_node t]). node_of t m" by (rule node_of_levelorder)
  then show "n \<in> set (traverse t) \<Longrightarrow> node_of t n" unfolding traverse_def by blast
qed

lemma find_in_set: "find P xs = Some x \<Longrightarrow> x \<in> set xs"
  by (induction xs) (simp_all split: if_splits)

lemma find_holds: "find P xs = Some x \<Longrightarrow> P x"
  by (induction xs) (simp_all split: if_splits)

lemma tree_and_find:
  "tree_and t v = Inr a \<Longrightarrow> find (\<lambda>n. name (sub n) = v) (traverse t) = Some a"
  by (simp add: tree_and_def split: option.splits)

lemma tree_and_node_of: "tree_and t v = Inr a \<Longrightarrow> node_of t a"
  by (rule node_of_traverse [OF find_in_set [OF tree_and_find]])

lemma self_ancestor: "n \<in> set (ancestors n)"
  by (induction n rule: ancestors.induct) simp_all

lemma root_ancestor: "node_of t n \<Longrightarrow> root_node t \<in> set (ancestors n)"
  by (induction n rule: ancestors.induct) (simp_all add: root_node_def)

lemma get_leaf_names_nonempty: "get_leaf_names t \<noteq> []"
proof (induction t)
  case (Node a cs)
  show ?case
  proof (cases cs)
    case Nil
    then show ?thesis by simp
  next
    case (Cons c cs')
    with Node [of c] show ?thesis by simp
  qed
qed

lemma child_leaf_names:
  "i < length (children t) \<Longrightarrow> set (get_leaf_names (children t ! i)) \<subseteq> set (get_leaf_names t)"
proof (cases t)
  case (Node a cs)
  assume "i < length (children t)"
  with Node have i: "i < length cs" by simp
  then have "cs ! i \<in> set cs" by simp
  then have "set (get_leaf_names (cs ! i)) \<subseteq> (\<Union>c \<in> set cs. set (get_leaf_names c))" by blast
  moreover from i have "cs \<noteq> []" by auto
  ultimately show ?thesis using Node by simp
qed

lemma ancestor_leaf_names:
  "node_of t n \<Longrightarrow> m \<in> set (ancestors n)
     \<Longrightarrow> set (get_leaf_names (sub n)) \<subseteq> set (get_leaf_names (sub m))"
proof (induction n rule: ancestors.induct)
  case (1 i s)
  then show ?case by auto
next
  case (2 i s p)
  show ?case
  proof (cases "m = TreeNode i s (Some p)")
    case True
    then show ?thesis by simp
  next
    case False
    with 2 have "set (get_leaf_names (sub p)) \<subseteq> set (get_leaf_names (sub m))" by simp
    moreover from 2(2) have "set (get_leaf_names s) \<subseteq> set (get_leaf_names (sub p))"
      using child_leaf_names [of i "sub p"] by auto
    ultimately show ?thesis by auto
  qed
qed

lemma common_on_chain:
  assumes "get_common_ancestor self targets = Inr c" and "a \<in> set targets"
  shows "c \<in> set (ancestors a)"
proof -
  define ts where "ts = (case targets of [t] \<Rightarrow> [t, self] | _ \<Rightarrow> targets)"
  have a: "a \<in> set ts"
    using assms(2) by (auto simp: ts_def split: list.splits)
  have eq: "get_common_ancestor self targets =
      (case ts of [] \<Rightarrow> Inl TreeError
       | r # _ \<Rightarrow>
          (case find (\<lambda>n. list_all (\<lambda>t. t = r \<or> n \<in> set (ancestors t)) ts) (ancestors r) of
             None \<Rightarrow> Inl TreeError | Some common \<Rightarrow> Inr common))"
    unfolding get_common_ancestor_def Let_def ts_def ..
  from assms(1) obtain r rest where ts: "ts = r # rest"
    and f: "find (\<lambda>n. list_all (\<lambda>t. t = r \<or> n \<in> set (ancestors t)) ts) (ancestors r) = Some c"
    unfolding eq by (cases ts) (simp_all split: option.splits)
  from f have "c \<in> set (ancestors r)" by (rule find_in_set)
  moreover from f have "list_all (\<lambda>t. t = r \<or> c \<in> set (ancestors t)) ts"
    by (rule find_holds)
  ultimately show ?thesis using a by (auto simp: list_all_iff)
qed

lemma common_exists:
  assumes "targets \<noteq> []" and "\<forall>x \<in> set targets. node_of t x"
  shows "\<exists>c. get_common_ancestor (root_node t) targets = Inr c"
proof -
  define ts where "ts = (case targets of [x] \<Rightarrow> [x, root_node t] | _ \<Rightarrow> targets)"
  have "node_of t (root_node t)" by (simp add: root_node_def)
  with assms(2) have all: "\<forall>x \<in> set ts. node_of t x"
    by (auto simp: ts_def split: list.splits)
  from assms(1) have "ts \<noteq> []"
    by (auto simp: ts_def split: list.splits)
  then obtain r rest where ts: "ts = r # rest"
    by (cases ts) auto
  have "\<exists>n \<in> set (ancestors r). list_all (\<lambda>x. x = r \<or> n \<in> set (ancestors x)) ts"
  proof
    show "root_node t \<in> set (ancestors r)" using all ts root_ancestor by simp
    show "list_all (\<lambda>x. x = r \<or> root_node t \<in> set (ancestors x)) ts"
      using all root_ancestor by (auto simp: list_all_iff)
  qed
  then have "find (\<lambda>n. list_all (\<lambda>x. x = r \<or> n \<in> set (ancestors x)) ts) (ancestors r) \<noteq> None"
    unfolding find_None_iff by blast
  moreover have "get_common_ancestor (root_node t) targets =
      (case ts of [] \<Rightarrow> Inl TreeError
       | r # _ \<Rightarrow>
          (case find (\<lambda>n. list_all (\<lambda>x. x = r \<or> n \<in> set (ancestors x)) ts) (ancestors r) of
             None \<Rightarrow> Inl TreeError | Some common \<Rightarrow> Inr common))"
    unfolding get_common_ancestor_def Let_def ts_def ..
  ultimately show ?thesis
    by (simp add: ts split: option.splits)
qed

lemma add_taxon_within:
  assumes "\<And>tid ns. m tid = Some ns \<Longrightarrow> set ns \<subseteq> S" and "x \<in> S"
    and "add_taxon m x tid = Some ns"
  shows "set ns \<subseteq> S"
proof (cases "name (sub x) \<noteq> [] \<and> tid = name (sub x)")
  case True
  with assms(3) have "ns = (case m tid of None \<Rightarrow> [] | Some ns' \<Rightarrow> ns') @ [x]"
    by (simp add: add_taxon_def)
  with assms(1,2) show ?thesis by (cases "m tid") auto
next
  case False
  with assms(3) have "m tid = Some ns"
    by (auto simp: add_taxon_def split: if_splits)
  with assms(1) show ?thesis by simp
qed

lemma foldl_add_taxon_within:
  "(\<And>tid ns. m tid = Some ns \<Longrightarrow> set ns \<subseteq> S) \<Longrightarrow> set xs \<subseteq> S
     \<Longrightarrow> foldl add_taxon m xs tid = Some ns \<Longrightarrow> set ns \<subseteq> S"
proof (induction xs arbitrary: m)
  case Nil
  then show ?case by simp
next
  case (Cons x xs)
  have "\<And>tid ns. add_taxon m x tid = Some ns \<Longrightarrow> set ns \<subseteq> S"
    using add_taxon_within [of m S x] Cons.prems(1,2) by simp
  moreover have "set xs \<subseteq> S" using Cons.prems(2) by simp
  moreover have "foldl add_taxon (add_taxon m x) xs tid = Some ns" using Cons.prems(3) by simp
  ultimately show ?case by (rule Cons.IH)
qed

lemma build_taxon_nodes_traverse:
  "build_taxon_nodes t tid = Some ns \<Longrightarrow> set ns \<subseteq> set (traverse t)"
  unfolding build_taxon_nodes_def
  by (rule foldl_add_taxon_within [of Map.empty "set (traverse t)" "traverse t" tid ns]) simp_all

lemma set_map_filter: "set (List.map_filter f xs) = {y. \<exists>x \<in> set xs. f x = Some y}"
  by (induction xs) (auto simp: map_filter_def)

lemma candidate_nodes:
  "x \<in> set (concat (candidate_taxa taxon_nodes anchor_node valid))
     \<Longrightarrow> x = anchor_node \<or> (\<exists>tid ns. taxon_nodes tid = Some ns \<and> x \<in> set ns)"
  by (auto simp: candidate_taxa_def set_map_filter)

lemma anchor_candidate:
  "anchor_node \<in> set (concat (candidate_taxa taxon_nodes anchor_node valid))"
  by (simp add: candidate_taxa_def)

lemma candidate_taxa_nonempty: "candidate_taxa taxon_nodes anchor_node valid \<noteq> []"
  by (simp add: candidate_taxa_def)

lemma depth_ancestor: "m \<in> set (ancestors a) \<Longrightarrow> depth m \<le> depth a"
  by (induction a rule: ancestors.induct) auto

lemma path_to_mrca_ancestor:
  "m \<in> set (ancestors a)
     \<Longrightarrow> \<exists>path. path_to_mrca a m = Inr path \<and> length path = Suc (depth a - depth m)"
proof (induction a m rule: path_to_mrca.induct)
  case (1 i s mrca)
  then show ?case by simp
next
  case (2 i s p mrca)
  show ?case
  proof (cases "TreeNode i s (Some p) = mrca")
    case True
    then show ?thesis by auto
  next
    case False
    with 2 have m: "mrca \<in> set (ancestors p)" by auto
    with 2 False obtain path where p: "path_to_mrca p mrca = Inr path"
      and l: "length path = Suc (depth p - depth mrca)" by blast
    from m have "depth mrca \<le> depth p" by (rule depth_ancestor)
    with False p l show ?thesis by (simp add: Suc_diff_le)
  qed
qed

lemma ratio_eq: "ratio a b = Inr (proportion a b)"
  by (simp add: ratio_def truediv_def proportion_def)

lemma proportion_bounds: "a \<le> b \<Longrightarrow> 0 \<le> proportion a b \<and> proportion a b \<le> 1"
  by (simp add: proportion_def)

lemma proportion_zero_total: "proportion a 0 = 0"
  by (simp add: proportion_def)

lemma proportion_zero_observed: "proportion 0 b = 0"
  by (simp add: proportion_def)

lemma proportion_one: "proportion a b = 1 \<longleftrightarrow> a = b \<and> 0 < b"
  by (auto simp: proportion_def)

lemma coverage_eq:
  "coverage_percentage ls obs = Inr (proportion (card (set ls \<inter> obs)) (card (set ls)))"
  by (simp add: coverage_percentage_def Let_def ratio_eq)

lemma coverage_quotient:
  "ls \<noteq> [] \<Longrightarrow> proportion (card (set ls \<inter> obs)) (card (set ls))
                 = of_nat (card (set ls \<inter> obs)) / of_nat (card (set ls))"
  by (simp add: proportion_def card_gt_0_iff)

lemma coverage_bounds:
  "0 \<le> proportion (card (set ls \<inter> obs)) (card (set ls))
   \<and> proportion (card (set ls \<inter> obs)) (card (set ls)) \<le> 1"
proof -
  have "card (set ls \<inter> obs) \<le> card (set ls)"
    by (rule card_mono) simp_all
  then show ?thesis by (rule proportion_bounds)
qed

lemma coverage_one:
  assumes "ls \<noteq> []"
  shows "proportion (card (set ls \<inter> obs)) (card (set ls)) = 1 \<longleftrightarrow> set ls \<subseteq> obs"
proof -
  let ?L = "set ls"
  have pos: "0 < card ?L" using assms by (simp add: card_gt_0_iff)
  have "card (?L \<inter> obs) = card ?L \<longleftrightarrow> ?L \<inter> obs = ?L"
    by (metis List.finite_set card_subset_eq inf_le1)
  also have "\<dots> \<longleftrightarrow> ?L \<subseteq> obs" by blast
  finally show ?thesis using pos by (simp add: proportion_one)
qed

lemma hundredths_le:
  assumes "0 \<le> x" and "x \<le> 1"
  shows "hundredths x \<le> 100"
proof -
  define n where "n = nat \<lfloor>x * 100\<rfloor>"
  from assms have lo: "0 \<le> \<lfloor>x * 100\<rfloor>" by simp
  from assms(2) have "x * 100 < 101" by simp
  then have hi: "\<lfloor>x * 100\<rfloor> \<le> 100" by (simp add: floor_le_iff)
  from hi have "nat \<lfloor>x * 100\<rfloor> \<le> nat 100" by (rule nat_mono)
  then have n: "n \<le> 100" by (simp add: n_def)
  show ?thesis
  proof (cases "n = 100")
    case True
    have "of_int \<lfloor>x * 100\<rfloor> \<le> x * 100" by (rule of_int_floor_le)
    moreover from True lo have "\<lfloor>x * 100\<rfloor> = 100" by (simp add: n_def)
    ultimately have "100 \<le> x * 100" by simp
    with assms(2) have "x * 100 = 100" by simp
    then have "x * 100 - of_nat n = 0" using True by simp
    then show ?thesis
      unfolding hundredths_def Let_def n_def [symmetric] using True by simp
  next
    case False
    with n have "n + 1 \<le> 100" by simp
    then show ?thesis
      unfolding hundredths_def Let_def n_def [symmetric] by simp
  qed
qed

lemma format_2f_one: "format_2f 1 = ''1.00''"
  by code_simp

lemma format_2f_zero: "format_2f 0 = ''0.00''"
  by code_simp

lemma activation_vector_eq:
  "activation_vector path obs seen = Inr (activation_entries path obs seen)"
  by (induction path arbitrary: seen) (simp_all add: Let_def ratio_eq)

lemma length_activation_entries: "length (activation_entries path obs seen) = length path"
  by (induction path arbitrary: seen) simp_all

lemma activation_entries_bounds:
  "x \<in> set (activation_entries path obs seen) \<Longrightarrow> 0 \<le> x \<and> x \<le> 1"
proof (induction path arbitrary: seen)
  case Nil
  then show ?case by simp
next
  case (Cons n path)
  let ?new = "set (get_leaf_names (sub n)) - seen"
  have "card (?new \<inter> obs) \<le> card ?new" by (rule card_mono) simp_all
  then have "0 \<le> proportion (card (?new \<inter> obs)) (card ?new)
             \<and> proportion (card (?new \<inter> obs)) (card ?new) \<le> 1"
    by (rule proportion_bounds)
  with Cons show ?case by auto
qed

lemma activation_entries_no_new:
  "k < length path
     \<Longrightarrow> set (get_leaf_names (sub (path ! k)))
           \<subseteq> seen \<union> (\<Union>m \<in> set (take k path). set (get_leaf_names (sub m)))
     \<Longrightarrow> activation_entries path obs seen ! k = 0"
proof (induction path arbitrary: k seen)
  case Nil
  then show ?case by simp
next
  case (Cons n path)
  show ?case
  proof (cases k)
    case 0
    with Cons.prems(2) have "set (get_leaf_names (sub n)) - seen = {}" by simp
    then have "proportion (card ((set (get_leaf_names (sub n)) - seen) \<inter> obs))
                 (card (set (get_leaf_names (sub n)) - seen)) = 0"
      by (simp only: card.empty proportion_zero_total)
    with 0 show ?thesis by simp
  next
    case (Suc j)
    with Cons.prems have "j < length path"
      and "set (get_leaf_names (sub (path ! j)))
             \<subseteq> (seen \<union> set (get_leaf_names (sub n))) \<union> (\<Union>m \<in> set (take j path). set (get_leaf_names (sub m)))"
      by (simp_all add: Un_assoc)
    then have "activation_entries path obs (seen \<union> set (get_leaf_names (sub n))) ! j = 0"
      by (rule Cons.IH)
    with Suc show ?thesis by simp
  qed
qed

lemma foldl_union:
  "foldl (\<lambda>acc n. acc \<union> f n) A ns = A \<union> (\<Union>n \<in> set ns. f n)"
  by (induction ns arbitrary: A) auto

lemma observe_eq:
  "observe taxon_nodes tids (obs, pr) =
     (obs \<union> (\<Union>tid \<in> set tids. leaves_of taxon_nodes tid),
      pr @ map not_found_warning (filter (\<lambda>tid. taxon_nodes tid = None) tids))"
proof (induction tids arbitrary: obs pr)
  case Nil
  then show ?case by simp
next
  case (Cons tid tids)
  show ?case
  proof (cases "taxon_nodes tid")
    case None
    then show ?thesis
      by (simp add: Cons.IH leaves_of_def not_found_warning_def)
  next
    case (Some ns)
    then show ?thesis
      by (simp add: Cons.IH leaves_of_def foldl_union Un_assoc)
  qed
qed

lemma name_at_set_name:
  "name_at (set_name t p s) q = (if q = p \<and> name_at t p \<noteq> None then Some s else name_at t q)"
proof (induction p arbitrary: t q)
  case Nil
  then show ?case by (cases q) simp_all
next
  case (Cons i ps)
  show ?case
  proof (cases "i < length (children t)")
    case False
    then show ?thesis by simp
  next
    case True
    show ?thesis
    proof (cases q)
      case Nil
      with True show ?thesis by simp
    next
      case (Cons j qs)
      show ?thesis
      proof (cases "j = i")
        case True
        with \<open>i < length (children t)\<close> Cons Cons.IH [of "children t ! i" qs] show ?thesis
          by simp
      next
        case False
        with \<open>i < length (children t)\<close> Cons show ?thesis by simp
      qed
    qed
  qed
qed

lemma assign_loop_keeps:
  "name_at t q = Some x \<Longrightarrow> x \<noteq> [] \<Longrightarrow> name_at (assign_loop ns t c) q = Some x"
proof (induction ns arbitrary: t c)
  case Nil
  then show ?case by simp
next
  case (Cons n ns)
  show ?case
  proof (cases "name_at t (path_of n) = Some []")
    case True
    with Cons.prems have "q \<noteq> path_of n" by auto
    then have "name_at (set_name t (path_of n) (''Internal_'' @ str_nat c)) q = Some x"
      using Cons.prems(1) by (simp add: name_at_set_name)
    then have "name_at (assign_loop ns (set_name t (path_of n) (''Internal_'' @ str_nat c)) (c + 1)) q = Some x"
      using Cons.prems(2) by (rule Cons.IH)
    with True show ?thesis by simp
  next
    case False
    with Cons.IH [OF Cons.prems] show ?thesis by simp
  qed
qed

lemma assign_loop_changed:
  "name_at (assign_loop ns t c) q \<noteq> name_at t q
     \<Longrightarrow> name_at t q = Some [] \<and> (\<exists>k. name_at (assign_loop ns t c) q = Some (''Internal_'' @ str_nat k))"
proof (induction ns arbitrary: t c)
  case Nil
  then show ?case by simp
next
  case (Cons n ns)
  show ?case
  proof (cases "name_at t (path_of n) = Some []")
    case False
    with Cons.prems have "name_at (assign_loop ns t c) q \<noteq> name_at t q" by simp
    then have "name_at t q = Some [] \<and> (\<exists>k. name_at (assign_loop ns t c) q = Some (''Internal_'' @ str_nat k))"
      by (rule Cons.IH)
    with False show ?thesis by simp
  next
    case True
    define t' where "t' = set_name t (path_of n) (''Internal_'' @ str_nat c)"
    have step: "assign_loop (n # ns) t c = assign_loop ns t' (c + 1)"
      using True by (simp add: t'_def)
    show ?thesis
    proof (cases "q = path_of n")
      case q: True
      then have "name_at t' q = Some (''Internal_'' @ str_nat c)"
        using True by (simp add: t'_def name_at_set_name)
      then have "name_at (assign_loop ns t' (c + 1)) q = Some (''Internal_'' @ str_nat c)"
        by (rule assign_loop_keeps) simp
      with step True q show ?thesis by auto
    next
      case q: False
      then have same: "name_at t' q = name_at t q"
        by (simp add: t'_def name_at_set_name)
      with Cons.prems step have "name_at (assign_loop ns t' (c + 1)) q \<noteq> name_at t' q" by simp
      then have "name_at t' q = Some [] \<and> (\<exists>k. name_at (assign_loop ns t' (c + 1)) q = Some (''Internal_'' @ str_nat k))"
        by (rule Cons.IH)
      with same step show ?thesis by simp
    qed
  qed
qed

lemma valid_taxids_idem: "valid_taxids (valid_taxids taxids) = valid_taxids taxids"
  by (simp add: valid_taxids_def)

lemma valid_taxids_no_hit: "list_all (\<lambda>taxid. taxid = ''no_hit'') taxids \<Longrightarrow> valid_taxids taxids = []"
  by (auto simp: valid_taxids_def list_all_iff filter_empty_conv)

lemma valid_taxids_no_valid:
  "list_all (\<lambda>taxid. taxid = ''no_valid_taxid'') taxids \<Longrightarrow> valid_taxids taxids = []"
  by (auto simp: valid_taxids_def list_all_iff filter_empty_conv)

lemma valid_not_sentinel:
  "valid_taxids taxids \<noteq> []
     \<Longrightarrow> \<not> list_all (\<lambda>taxid. taxid = ''no_hit'') taxids \<and> \<not> list_all (\<lambda>taxid. taxid = ''no_valid_taxid'') taxids"
  using valid_taxids_no_hit valid_taxids_no_valid by blast

lemma candidates_node_of:
  assumes "node_of t anchor_node"
    and "x \<in> set (concat (candidate_taxa (build_taxon_nodes t) anchor_node valid))"
  shows "node_of t x"
proof -
  from assms(2) consider "x = anchor_node"
    | tid ns where "build_taxon_nodes t tid = Some ns" and "x \<in> set ns"
    using candidate_nodes [of x "build_taxon_nodes t" anchor_node valid] by blast
  then show ?thesis
  proof cases
    case 1
    with assms(1) show ?thesis by simp
  next
    case 2
    then have "x \<in> set (traverse t)" using build_taxon_nodes_traverse [of t tid ns] by blast
    then show ?thesis by (rule node_of_traverse)
  qed
qed

lemma mrca_exists:
  assumes "node_of t anchor_node"
  shows "\<exists>mrca. get_common_ancestor (root_node t)
                   (concat (candidate_taxa (build_taxon_nodes t) anchor_node valid)) = Inr mrca
               \<and> mrca \<in> set (ancestors anchor_node)"
proof -
  let ?targets = "concat (candidate_taxa (build_taxon_nodes t) anchor_node valid)"
  have a: "anchor_node \<in> set ?targets" by (rule anchor_candidate)
  then have "?targets \<noteq> []" by (metis empty_iff list.set(1))
  moreover have "\<forall>x \<in> set ?targets. node_of t x"
    using candidates_node_of [OF assms] by blast
  ultimately obtain c where c: "get_common_ancestor (root_node t) ?targets = Inr c"
    using common_exists [of ?targets t] by blast
  then have "c \<in> set (ancestors anchor_node)" using a by (rule common_on_chain)
  with c show ?thesis by blast
qed

lemma query_species_percentage:
  assumes "\<not> (valid_taxids taxids = [] \<and> list_all (\<lambda>taxid. taxid = ''no_hit'') taxids)"
    and "\<not> (valid_taxids taxids = [] \<and> list_all (\<lambda>taxid. taxid = ''no_valid_taxid'') taxids)"
    and "get_common_ancestor tree (concat (candidate_taxa taxon_nodes anchor_node (valid_taxids taxids))) = Inr mrca"
  shows "find_mrca_query tree taxon_nodes anchor_node species_percentage (qseqid, taxids) =
           Inr (Some mrca,
                Text (format_2f (proportion
                  (card (set (get_leaf_names (sub mrca))
                          \<inter> fst (observe taxon_nodes (valid_taxids taxids) ({}, []))))
                  (card (set (get_leaf_names (sub mrca)))))),
                snd (observe taxon_nodes (valid_taxids taxids) ({}, [])))"
proof -
  from assms(1) have c1: "(valid_taxids taxids = [] \<and> list_all (\<lambda>taxid. taxid = ''no_hit'') taxids) = False"
    by blast
  from assms(2) have c2: "(valid_taxids taxids = [] \<and> list_all (\<lambda>taxid. taxid = ''no_valid_taxid'') taxids) = False"
    by blast
  show ?thesis
    by (simp add: find_mrca_query_def Let_def c1 c2 assms(3) candidate_taxa_nonempty coverage_eq
             split: prod.splits)
qed

lemma query_node_activation:
  assumes "\<not> (valid_taxids taxids = [] \<and> list_all (\<lambda>taxid. taxid = ''no_hit'') taxids)"
    and "\<not> (valid_taxids taxids = [] \<and> list_all (\<lambda>taxid. taxid = ''no_valid_taxid'') taxids)"
    and "get_common_ancestor tree (concat (candidate_taxa taxon_nodes anchor_node (valid_taxids taxids))) = Inr mrca"
    and "path_to_mrca anchor_node mrca = Inr path"
  shows "find_mrca_query tree taxon_nodes anchor_node node_activation (qseqid, taxids) =
           Inr (Some mrca,
                Activation (activation_entries path (fst (observe taxon_nodes (valid_taxids taxids) ({}, []))) {}),
                snd (observe taxon_nodes (valid_taxids taxids) ({}, [])))"
proof -
  from assms(1) have c1: "(valid_taxids taxids = [] \<and> list_all (\<lambda>taxid. taxid = ''no_hit'') taxids) = False"
    by blast
  from assms(2) have c2: "(valid_taxids taxids = [] \<and> list_all (\<lambda>taxid. taxid = ''no_valid_taxid'') taxids) = False"
    by blast
  show ?thesis
    by (simp add: find_mrca_query_def Let_def c1 c2 assms(3,4) candidate_taxa_nonempty
             activation_vector_eq split: prod.splits)
qed

lemma query_default:
  assumes "valid_taxids taxids = [] \<and> (list_all (\<lambda>taxid. taxid = ''no_hit'') taxids
             \<or> list_all (\<lambda>taxid. taxid = ''no_valid_taxid'') taxids)"
  shows "\<exists>metric out. find_mrca_query tree taxon_nodes anchor_node method (qseqid, taxids) =
           Inr (Some anchor_node, metric, out)"
  using assms by (auto simp: find_mrca_query_def)

lemma add_taxon_nonempty:
  assumes "\<And>tid ns. m tid = Some ns \<Longrightarrow> ns \<noteq> []" and "add_taxon m x tid = Some ns"
  shows "ns \<noteq> []"
proof (cases "name (sub x) \<noteq> [] \<and> tid = name (sub x)")
  case True
  with assms(2) have "ns = (case m tid of None \<Rightarrow> [] | Some ns' \<Rightarrow> ns') @ [x]"
    by (simp add: add_taxon_def)
  then show ?thesis by simp
next
  case False
  with assms(2) have "m tid = Some ns"
    by (auto simp: add_taxon_def split: if_splits)
  with assms(1) show ?thesis by simp
qed

lemma foldl_add_taxon_nonempty:
  "(\<And>tid ns. m tid = Some ns \<Longrightarrow> ns \<noteq> [])
     \<Longrightarrow> foldl add_taxon m xs tid = Some ns \<Longrightarrow> ns \<noteq> []"
proof (induction xs arbitrary: m)
  case Nil
  then show ?case by simp
next
  case (Cons x xs)
  have "\<And>tid ns. add_taxon m x tid = Some ns \<Longrightarrow> ns \<noteq> []"
    using add_taxon_nonempty [of m x] Cons.prems(1) by blast
  moreover have "foldl add_taxon (add_taxon m x) xs tid = Some ns" using Cons.prems(2) by simp
  ultimately show ?case by (rule Cons.IH)
qed

lemma build_taxon_nodes_nonempty: "build_taxon_nodes t tid = Some ns \<Longrightarrow> ns \<noteq> []"
  unfolding build_taxon_nodes_def
  by (rule foldl_add_taxon_nonempty [of Map.empty "traverse t" tid ns]) simp_all

lemma proper_ancestor_internal:
  "node_of t x \<Longrightarrow> a \<in> set (ancestors x) \<Longrightarrow> a \<noteq> x \<Longrightarrow> children (sub a) \<noteq> []"
proof (induction x rule: ancestors.induct)
  case (1 i s)
  then show ?case by simp
next
  case (2 i s p)
  from "2.prems"(2,3) have in_p: "a \<in> set (ancestors p)" by simp
  from "2.prems"(1) have p: "node_of t p" and i: "i < length (children (sub p))" by simp_all
  show ?case
  proof (cases "a = p")
    case True
    with i show ?thesis by auto
  next
    case False
    with p in_p show ?thesis by (rule "2.IH")
  qed
qed

lemma single_target:
  assumes "get_common_ancestor self [a] = Inr c"
  shows "c \<in> set (ancestors self)"
proof -
  have eq: "get_common_ancestor self [a] =
      (case find (\<lambda>n. list_all (\<lambda>t. t = a \<or> n \<in> set (ancestors t)) [a, self]) (ancestors a) of
         None \<Rightarrow> Inl TreeError | Some common \<Rightarrow> Inr common)"
    by (simp add: get_common_ancestor_def)
  from assms have f: "find (\<lambda>n. list_all (\<lambda>t. t = a \<or> n \<in> set (ancestors t)) [a, self]) (ancestors a) = Some c"
    unfolding eq by (simp split: option.splits)
  from f have in_a: "c \<in> set (ancestors a)" by (rule find_in_set)
  from f have "list_all (\<lambda>t. t = a \<or> c \<in> set (ancestors t)) [a, self]" by (rule find_holds)
  then have "self = a \<or> c \<in> set (ancestors self)" by simp
  with in_a show ?thesis by auto
qed

lemma leaf_anchor_observed:
  assumes anchor: "node_of t anchor_node" and leaf: "is_leaf anchor_node"
    and parent: "up anchor_node \<noteq> None"
    and mrca: "get_common_ancestor (root_node t)
                 (concat (candidate_taxa (build_taxon_nodes t) anchor_node valid)) = Inr anchor_node"
  shows "set (get_leaf_names (sub anchor_node))
           \<subseteq> (\<Union>tid \<in> set valid. leaves_of (build_taxon_nodes t) tid)"
proof (cases "List.map_filter (build_taxon_nodes t) valid = []")
  case True
  then have "concat (candidate_taxa (build_taxon_nodes t) anchor_node valid) = [anchor_node]"
    by (simp add: candidate_taxa_def)
  with mrca have "anchor_node \<in> set (ancestors (root_node t))"
    using single_target [of "root_node t" anchor_node anchor_node] by simp
  then have "anchor_node = root_node t" by (simp add: root_node_def)
  with parent show ?thesis by (simp add: root_node_def)
next
  case False
  then obtain ns where "ns \<in> set (List.map_filter (build_taxon_nodes t) valid)"
    by (cases "List.map_filter (build_taxon_nodes t) valid") auto
  then obtain tid where tid: "tid \<in> set valid" and ns: "build_taxon_nodes t tid = Some ns"
    unfolding set_map_filter by blast
  from ns have "ns \<noteq> []" by (rule build_taxon_nodes_nonempty)
  then obtain x where x: "x \<in> set ns" by (cases ns) auto
  from tid ns x have target: "x \<in> set (concat (candidate_taxa (build_taxon_nodes t) anchor_node valid))"
    by (auto simp: candidate_taxa_def set_map_filter)
  with anchor have "node_of t x" by (rule candidates_node_of)
  moreover from mrca target have "anchor_node \<in> set (ancestors x)" by (rule common_on_chain)
  ultimately have "anchor_node = x"
    using proper_ancestor_internal [of t x anchor_node] leaf by (auto simp: is_leaf_def)
  with x ns have "set (get_leaf_names (sub anchor_node)) \<subseteq> leaves_of (build_taxon_nodes t) tid"
    by (auto simp: leaves_of_def)
  with tid show ?thesis by blast
qed

lemma valid_taxids_filter: "valid_taxids (filter P xs) = filter P (valid_taxids xs)"
  by (simp add: valid_taxids_def conj_commute)

lemma map_filter_known:
  "List.map_filter f (filter (\<lambda>x. f x \<noteq> None) xs) = List.map_filter f xs"
  by (simp add: map_filter_def)

lemma leaves_known:
  "(\<Union>tid \<in> set (filter (\<lambda>tid. taxon_nodes tid \<noteq> None) xs). leaves_of taxon_nodes tid)
     = (\<Union>tid \<in> set xs. leaves_of taxon_nodes tid)"
proof (induction xs)
  case Nil
  then show ?case by simp
next
  case (Cons x xs)
  show ?case
  proof (cases "taxon_nodes x")
    case None
    then have "leaves_of taxon_nodes x = {}" by (simp add: leaves_of_def)
    with None Cons show ?thesis by simp
  next
    case (Some ns)
    with Cons show ?thesis by simp
  qed
qed

lemma filter_unknown_known:
  "filter (\<lambda>x. f x = None) (filter (\<lambda>x. f x \<noteq> None) xs) = []"
  by (induction xs) simp_all

lemma observe_known:
  "observe taxon_nodes (filter (\<lambda>tid. taxon_nodes tid \<noteq> None) xs) ({}, []) =
     (fst (observe taxon_nodes xs ({}, [])), [])"
proof -
  have "observe taxon_nodes (filter (\<lambda>tid. taxon_nodes tid \<noteq> None) xs) ({}, []) =
          ({} \<union> (\<Union>tid \<in> set xs. leaves_of taxon_nodes tid), [] @ map not_found_warning [])"
    by (simp only: observe_eq leaves_known filter_unknown_known)
  moreover have "fst (observe taxon_nodes xs ({}, [])) = {} \<union> (\<Union>tid \<in> set xs. leaves_of taxon_nodes tid)"
    by (simp only: observe_eq fst_conv)
  ultimately show ?thesis by simp
qed

lemma query_general:
  "valid_taxids taxids \<noteq> [] \<Longrightarrow>
     find_mrca_query tree taxon_nodes anchor_node method (qseqid, taxids) =
       (case get_common_ancestor tree (concat (candidate_taxa taxon_nodes anchor_node (valid_taxids taxids))) of
          Inl e \<Rightarrow> Inl e
        | Inr mrca \<Rightarrow>
            (case method of
               species_percentage \<Rightarrow>
                 Inr (Some mrca,
                      Text (format_2f (proportion
                        (card (set (get_leaf_names (sub mrca))
                                \<inter> fst (observe taxon_nodes (valid_taxids taxids) ({}, []))))
                        (card (set (get_leaf_names (sub mrca)))))),
                      snd (observe taxon_nodes (valid_taxids taxids) ({}, [])))
             | node_activation \<Rightarrow>
                 (case path_to_mrca anchor_node mrca of
                    Inl e \<Rightarrow> Inl e
                  | Inr path \<Rightarrow>
                      Inr (Some mrca,
                           Activation (activation_entries path (fst (observe taxon_nodes (valid_taxids taxids) ({}, []))) {}),
                           snd (observe taxon_nodes (valid_taxids taxids) ({}, []))))))"
  by (simp add: find_mrca_query_def Let_def candidate_taxa_nonempty coverage_eq activation_vector_eq
           split: prod.splits sum.splits metric_method.splits)

lemma not_found_branch_dead:
  "find_mrca_query tree taxon_nodes anchor_node method q \<noteq> Inr (None, metric, out)"
  by (cases q)
     (simp add: find_mrca_query_def Let_def candidate_taxa_nonempty coverage_eq activation_vector_eq
           split: prod.splits sum.splits metric_method.splits)

lemma unknown_taxids_excluded:
  assumes k: "filter (\<lambda>tid. taxon_nodes tid \<noteq> None) (valid_taxids taxids) \<noteq> []"
  shows "find_mrca_query tree taxon_nodes anchor_node method (qseqid, taxids) =
        (case find_mrca_query tree taxon_nodes anchor_node method
                (qseqid, filter (\<lambda>tid. taxon_nodes tid \<noteq> None) (valid_taxids taxids)) of
           Inl e \<Rightarrow> Inl e
         | Inr (m, metric, out) \<Rightarrow>
             Inr (m, metric,
                  map not_found_warning (filter (\<lambda>tid. taxon_nodes tid = None) (valid_taxids taxids))))"
proof -
  let ?valid = "valid_taxids taxids"
  let ?known = "filter (\<lambda>tid. taxon_nodes tid \<noteq> None) ?valid"
  from k have v: "?valid \<noteq> []" by auto
  have vk: "valid_taxids ?known = ?known"
    by (simp add: valid_taxids_filter valid_taxids_idem)
  from k vk have kk: "valid_taxids ?known \<noteq> []" by metis
  have c: "candidate_taxa taxon_nodes anchor_node ?known = candidate_taxa taxon_nodes anchor_node ?valid"
    by (simp only: candidate_taxa_def map_filter_known)
  have w: "snd (observe taxon_nodes ?valid ({}, []))
             = map not_found_warning (filter (\<lambda>tid. taxon_nodes tid = None) ?valid)"
    by (simp add: observe_eq)
  have o: "fst (observe taxon_nodes ?known ({}, [])) = fst (observe taxon_nodes ?valid ({}, []))"
    and o': "snd (observe taxon_nodes ?known ({}, [])) = []"
    by (simp_all only: observe_known fst_conv snd_conv)
  have left: "find_mrca_query tree taxon_nodes anchor_node method (qseqid, taxids) =
      (case get_common_ancestor tree (concat (candidate_taxa taxon_nodes anchor_node ?valid)) of
          Inl e \<Rightarrow> Inl e
        | Inr mrca \<Rightarrow>
            (case method of
               species_percentage \<Rightarrow>
                 Inr (Some mrca,
                      Text (format_2f (proportion
                        (card (set (get_leaf_names (sub mrca)) \<inter> fst (observe taxon_nodes ?valid ({}, []))))
                        (card (set (get_leaf_names (sub mrca)))))),
                      snd (observe taxon_nodes ?valid ({}, [])))
             | node_activation \<Rightarrow>
                 (case path_to_mrca anchor_node mrca of
                    Inl e \<Rightarrow> Inl e
                  | Inr path \<Rightarrow>
                      Inr (Some mrca,
                           Activation (activation_entries path (fst (observe taxon_nodes ?valid ({}, []))) {}),
                           snd (observe taxon_nodes ?valid ({}, []))))))"
    using v by (rule query_general)
  have right: "find_mrca_query tree taxon_nodes anchor_node method (qseqid, ?known) =
      (case get_common_ancestor tree (concat (candidate_taxa taxon_nodes anchor_node ?valid)) of
          Inl e \<Rightarrow> Inl e
        | Inr mrca \<Rightarrow>
            (case method of
               species_percentage \<Rightarrow>
                 Inr (Some mrca,
                      Text (format_2f (proportion
                        (card (set (get_leaf_names (sub mrca)) \<inter> fst (observe taxon_nodes ?valid ({}, []))))
                        (card (set (get_leaf_names (sub mrca)))))),
                      [])
             | node_activation \<Rightarrow>
                 (case path_to_mrca anchor_node mrca of
                    Inl e \<Rightarrow> Inl e
                  | Inr path \<Rightarrow>
                      Inr (Some mrca,
                           Activation (activation_entries path (fst (observe taxon_nodes ?valid ({}, []))) {}),
                           []))))"
    using query_general [OF kk, of tree taxon_nodes anchor_node "method" qseqid]
    by (simp only: vk c o o')
  show ?thesis
    unfolding left right w by (simp split: sum.splits metric_method.splits)
qed

section \<open>The claims\<close>

text \<open>
  Claim C1. The anchor node is appended to the candidate node lists before the common ancestor
  is computed. So for an anchor found in the tree, every query (with any candidate list, and
  with either method) yields a row, the MRCA of the row lies on the chain of the anchor and
  its ancestors (it is the anchor or an ancestor of it), and the leaf names below the anchor
  are all among the leaf names below the MRCA.
\<close>

theorem mrca_leaves_include_anchor:
  assumes "tree_and t anchor_specie = Inr anchor_node"
  shows "\<exists>mrca metric out.
           find_mrca_query (root_node t) (build_taxon_nodes t) anchor_node method (qseqid, taxids) =
             Inr (Some mrca, metric, out)
           \<and> mrca \<in> set (ancestors anchor_node)
           \<and> set (get_leaf_names (sub anchor_node)) \<subseteq> set (get_leaf_names (sub mrca))"
proof -
  from assms have anchor: "node_of t anchor_node" by (rule tree_and_node_of)
  have "\<exists>mrca metric out.
           find_mrca_query (root_node t) (build_taxon_nodes t) anchor_node method (qseqid, taxids) =
             Inr (Some mrca, metric, out)
           \<and> mrca \<in> set (ancestors anchor_node)"
  proof (cases "valid_taxids taxids = [] \<and> (list_all (\<lambda>taxid. taxid = ''no_hit'') taxids
             \<or> list_all (\<lambda>taxid. taxid = ''no_valid_taxid'') taxids)")
    case True
    then show ?thesis
      using query_default [of taxids "root_node t" "build_taxon_nodes t" anchor_node "method" qseqid]
        self_ancestor [of anchor_node] by blast
  next
    case False
    then have n1: "\<not> (valid_taxids taxids = [] \<and> list_all (\<lambda>taxid. taxid = ''no_hit'') taxids)"
      and n2: "\<not> (valid_taxids taxids = [] \<and> list_all (\<lambda>taxid. taxid = ''no_valid_taxid'') taxids)"
      by blast+
    from mrca_exists [OF anchor, of "valid_taxids taxids"] obtain mrca
      where m: "get_common_ancestor (root_node t)
                  (concat (candidate_taxa (build_taxon_nodes t) anchor_node (valid_taxids taxids))) = Inr mrca"
        and a: "mrca \<in> set (ancestors anchor_node)" by blast
    show ?thesis
    proof (cases "method")
      case species_percentage
      with query_species_percentage [OF n1 n2 m, of qseqid] a show ?thesis by blast
    next
      case node_activation
      from path_to_mrca_ancestor [OF a] obtain path where "path_to_mrca anchor_node mrca = Inr path"
        by blast
      with query_node_activation [OF n1 n2 m, of path qseqid] a node_activation show ?thesis
        by blast
    qed
  qed
  then obtain mrca metric out where
    r: "find_mrca_query (root_node t) (build_taxon_nodes t) anchor_node method (qseqid, taxids) =
             Inr (Some mrca, metric, out)"
    and a: "mrca \<in> set (ancestors anchor_node)" by blast
  from anchor a have "set (get_leaf_names (sub anchor_node)) \<subseteq> set (get_leaf_names (sub mrca))"
    by (rule ancestor_leaf_names)
  with r a show ?thesis by blast
qed

theorem mrca_leaves_include_anchor_witness:
  "tree_and scenario_tree ''A'' = Inr scenario_A
   \<and> find_mrca_query (root_node scenario_tree) (build_taxon_nodes scenario_tree) scenario_A
        species_percentage (''q1'', [''C'', ''D'']) = Inr (Some scenario_Root, Text ''0.50'', [])
   \<and> scenario_Root \<in> set (ancestors scenario_A)
   \<and> set (get_leaf_names (sub scenario_A)) \<subseteq> set (get_leaf_names (sub scenario_Root))"
proof -
  have h: "tree_and scenario_tree ''A'' = Inr scenario_A" by code_simp
  have r: "find_mrca_query (root_node scenario_tree) (build_taxon_nodes scenario_tree) scenario_A
        species_percentage (''q1'', [''C'', ''D'']) = Inr (Some scenario_Root, Text ''0.50'', [])"
    by code_simp
  from mrca_leaves_include_anchor [OF h, of species_percentage "''q1''" "[''C'', ''D'']"] r h show ?thesis by simp
qed

text \<open>
  Claim C2. A candidate list made only of \<^verbatim>\<open>no_hit\<close> (the empty list included, as the source
  tests it with \<^verbatim>\<open>all\<close>) resolves to the anchor with the flag text for \<^verbatim>\<open>no_hit\<close> and prints
  nothing. A non-empty candidate list made only of \<^verbatim>\<open>no_valid_taxid\<close> resolves to the anchor
  with the other flag text and prints a warning that names the query. Neither case fails.
\<close>

theorem default_assignment_for_sentinels:
  "(list_all (\<lambda>taxid. taxid = ''no_hit'') taxids \<longrightarrow>
      find_mrca_query tree taxon_nodes anchor_node method (qseqid, taxids) =
        Inr (Some anchor_node, Text ''Assigned to focal species (no_hit)'', []))
   \<and> (taxids' \<noteq> [] \<and> list_all (\<lambda>taxid. taxid = ''no_valid_taxid'') taxids' \<longrightarrow>
      find_mrca_query tree taxon_nodes anchor_node method (qseqid, taxids') =
        Inr (Some anchor_node, Text ''Assigned to focal species (no_valid_taxid)'',
             [''Warning: Query '' @ qseqid @ '' hit a synthetic construct or was malformed.'']))"
proof (intro conjI impI)
  assume "list_all (\<lambda>taxid. taxid = ''no_hit'') taxids"
  then show "find_mrca_query tree taxon_nodes anchor_node method (qseqid, taxids) =
        Inr (Some anchor_node, Text ''Assigned to focal species (no_hit)'', [])"
    by (simp add: find_mrca_query_def valid_taxids_no_hit)
next
  assume a: "taxids' \<noteq> [] \<and> list_all (\<lambda>taxid. taxid = ''no_valid_taxid'') taxids'"
  then have "\<not> list_all (\<lambda>taxid. taxid = ''no_hit'') taxids'"
    by (cases taxids') auto
  with a show "find_mrca_query tree taxon_nodes anchor_node method (qseqid, taxids') =
        Inr (Some anchor_node, Text ''Assigned to focal species (no_valid_taxid)'',
             [''Warning: Query '' @ qseqid @ '' hit a synthetic construct or was malformed.''])"
    by (simp add: find_mrca_query_def valid_taxids_no_valid)
qed

theorem default_assignment_for_sentinels_witness:
  "list_all (\<lambda>taxid. taxid = ''no_hit'') [''no_hit'', ''no_hit'']
   \<and> find_mrca_query scenario_Root (build_taxon_nodes scenario_tree) scenario_A species_percentage
        (''q1'', [''no_hit'', ''no_hit'']) =
        Inr (Some scenario_A, Text ''Assigned to focal species (no_hit)'', [])
   \<and> [''no_valid_taxid''] \<noteq> [] \<and> list_all (\<lambda>taxid. taxid = ''no_valid_taxid'') [''no_valid_taxid'']
   \<and> find_mrca_query scenario_Root (build_taxon_nodes scenario_tree) scenario_A species_percentage
        (''q1'', [''no_valid_taxid'']) =
        Inr (Some scenario_A, Text ''Assigned to focal species (no_valid_taxid)'',
             [''Warning: Query q1 hit a synthetic construct or was malformed.''])"
  using default_assignment_for_sentinels [of "[''no_hit'', ''no_hit'']" scenario_Root "build_taxon_nodes scenario_tree" scenario_A
              species_percentage "''q1''" "[''no_valid_taxid'']"]
  by simp

text \<open>
  Claim C3, as amended. For an anchor found in the tree and a query outside the two default
  cases, the \<^verbatim>\<open>species_percentage\<close> method yields the quotient of the number of observed leaf
  names below the MRCA by the number of leaf names below the MRCA, formatted with two
  decimals; the quotient lies between 0 and 1 and the row shows at most \<^verbatim>\<open>1.00\<close>. When the
  MRCA is the anchor and the anchor is a leaf other than the root, the quotient is exactly 1
  and the row shows \<^verbatim>\<open>1.00\<close>. For an empty list of leaf names the coverage is 0 and the row
  would show \<^verbatim>\<open>0.00\<close>; no division by zero is raised. The source has no separate case for an
  MRCA equal to the anchor: with the internal node \<open>N1\<close> as anchor and the candidate \<open>A\<close>, the
  MRCA is the anchor and the row shows \<^verbatim>\<open>0.50\<close>; and in the tree of the single node \<open>A\<close>
  with the unknown candidate \<open>X\<close> the MRCA is the anchor and the row shows \<^verbatim>\<open>0.00\<close>. These
  are the counterexample.
\<close>

theorem species_percentage_range:
  assumes "tree_and t anchor_specie = Inr anchor_node"
    and "\<not> (valid_taxids taxids = [] \<and> (list_all (\<lambda>taxid. taxid = ''no_hit'') taxids
             \<or> list_all (\<lambda>taxid. taxid = ''no_valid_taxid'') taxids))"
  shows "\<exists>mrca r out.
           find_mrca_query (root_node t) (build_taxon_nodes t) anchor_node species_percentage (qseqid, taxids) =
             Inr (Some mrca, Text (format_2f r), out)
           \<and> r = of_nat (card (set (get_leaf_names (sub mrca))
                                 \<inter> fst (observe (build_taxon_nodes t) (valid_taxids taxids) ({}, []))))
                 / of_nat (card (set (get_leaf_names (sub mrca))))
           \<and> 0 \<le> r \<and> r \<le> 1
           \<and> hundredths r \<le> 100
           \<and> (mrca = anchor_node \<and> is_leaf anchor_node \<and> up anchor_node \<noteq> None
                \<longrightarrow> r = 1 \<and> format_2f r = ''1.00'')
           \<and> coverage_percentage [] observed_leaves = Inr 0
           \<and> format_2f 0 = ''0.00''"
proof -
  from assms(1) have anchor: "node_of t anchor_node" by (rule tree_and_node_of)
  from assms(2) have n1: "\<not> (valid_taxids taxids = [] \<and> list_all (\<lambda>taxid. taxid = ''no_hit'') taxids)"
    and n2: "\<not> (valid_taxids taxids = [] \<and> list_all (\<lambda>taxid. taxid = ''no_valid_taxid'') taxids)"
    by blast+
  from mrca_exists [OF anchor, of "valid_taxids taxids"] obtain mrca
    where m: "get_common_ancestor (root_node t)
                (concat (candidate_taxa (build_taxon_nodes t) anchor_node (valid_taxids taxids))) = Inr mrca"
    by blast
  define obs where "obs = fst (observe (build_taxon_nodes t) (valid_taxids taxids) ({}, []))"
  define ls where "ls = get_leaf_names (sub mrca)"
  define r where "r = proportion (card (set ls \<inter> obs)) (card (set ls))"
  have ne: "ls \<noteq> []" unfolding ls_def by (rule get_leaf_names_nonempty)
  have q: "find_mrca_query (root_node t) (build_taxon_nodes t) anchor_node species_percentage (qseqid, taxids) =
             Inr (Some mrca, Text (format_2f r),
                  snd (observe (build_taxon_nodes t) (valid_taxids taxids) ({}, [])))"
    unfolding r_def ls_def obs_def by (rule query_species_percentage [OF n1 n2 m])
  have f: "r = of_nat (card (set (get_leaf_names (sub mrca))
                             \<inter> fst (observe (build_taxon_nodes t) (valid_taxids taxids) ({}, []))))
               / of_nat (card (set (get_leaf_names (sub mrca))))"
    using coverage_quotient [OF ne, of obs] by (simp add: r_def ls_def obs_def)
  have b: "0 \<le> r \<and> r \<le> 1" unfolding r_def by (rule coverage_bounds)
  then have h: "hundredths r \<le> 100" using hundredths_le by blast
  have one: "mrca = anchor_node \<and> is_leaf anchor_node \<and> up anchor_node \<noteq> None
                \<longrightarrow> r = 1 \<and> format_2f r = ''1.00''"
  proof
    assume a: "mrca = anchor_node \<and> is_leaf anchor_node \<and> up anchor_node \<noteq> None"
    with m have "get_common_ancestor (root_node t)
                (concat (candidate_taxa (build_taxon_nodes t) anchor_node (valid_taxids taxids)))
                  = Inr anchor_node" by simp
    with anchor a have "set (get_leaf_names (sub anchor_node))
           \<subseteq> (\<Union>tid \<in> set (valid_taxids taxids). leaves_of (build_taxon_nodes t) tid)"
      using leaf_anchor_observed [of t anchor_node "valid_taxids taxids"] by blast
    moreover have "obs = (\<Union>tid \<in> set (valid_taxids taxids). leaves_of (build_taxon_nodes t) tid)"
      by (simp add: obs_def observe_eq)
    ultimately have "set ls \<subseteq> obs" using a by (simp add: ls_def)
    then have "r = 1" unfolding r_def using coverage_one [OF ne, of obs] by simp
    then show "r = 1 \<and> format_2f r = ''1.00''" by (simp add: format_2f_one)
  qed
  have z: "coverage_percentage [] observed_leaves = Inr 0"
    by (simp add: coverage_eq proportion_def)
  from b have b0: "0 \<le> r" and b1: "r \<le> 1" by simp_all
  show ?thesis
  proof (intro exI conjI)
    show "find_mrca_query (root_node t) (build_taxon_nodes t) anchor_node species_percentage (qseqid, taxids) =
             Inr (Some mrca, Text (format_2f r),
                  snd (observe (build_taxon_nodes t) (valid_taxids taxids) ({}, [])))"
      by (rule q)
    show "r = of_nat (card (set (get_leaf_names (sub mrca))
                             \<inter> fst (observe (build_taxon_nodes t) (valid_taxids taxids) ({}, []))))
               / of_nat (card (set (get_leaf_names (sub mrca))))"
      by (rule f)
    show "0 \<le> r" by (rule b0)
    show "r \<le> 1" by (rule b1)
    show "hundredths r \<le> 100" by (rule h)
    show "mrca = anchor_node \<and> is_leaf anchor_node \<and> up anchor_node \<noteq> None
                \<longrightarrow> r = 1 \<and> format_2f r = ''1.00''" by (rule one)
    show "coverage_percentage [] observed_leaves = Inr 0" by (rule z)
    show "format_2f 0 = ''0.00''" by (rule format_2f_zero)
  qed
qed

theorem species_percentage_anchor_counterexample:
  "tree_and scenario_tree ''N1'' = Inr scenario_N1
   \<and> find_mrca_query scenario_Root (build_taxon_nodes scenario_tree) scenario_N1 species_percentage
        (''q1'', [''A'']) = Inr (Some scenario_N1, Text ''0.50'', [])
   \<and> ''0.50'' \<noteq> ''1.00''
   \<and> tree_and (Node ''A'' []) ''A'' = Inr (root_node (Node ''A'' []))
   \<and> find_mrca_query (root_node (Node ''A'' [])) (build_taxon_nodes (Node ''A'' []))
        (root_node (Node ''A'' [])) species_percentage (''q1'', [''X'']) =
       Inr (Some (root_node (Node ''A'' [])), Text ''0.00'',
            [''Warning: taxid X not found in taxon_nodes''])"
  by code_simp

theorem species_percentage_range_witness:
  "tree_and scenario_tree ''A'' = Inr scenario_A
   \<and> is_leaf scenario_A \<and> up scenario_A \<noteq> None
   \<and> find_mrca_query (root_node scenario_tree) (build_taxon_nodes scenario_tree) scenario_A
        species_percentage (''q1'', [''A'']) = Inr (Some scenario_A, Text ''1.00'', [])"
proof -
  have h: "tree_and scenario_tree ''A'' = Inr scenario_A" by code_simp
  have n: "\<not> (valid_taxids [''A''] = [] \<and> (list_all (\<lambda>taxid. taxid = ''no_hit'') [''A'']
             \<or> list_all (\<lambda>taxid. taxid = ''no_valid_taxid'') [''A'']))" by code_simp
  have l: "is_leaf scenario_A \<and> up scenario_A \<noteq> None" by code_simp
  have r: "find_mrca_query (root_node scenario_tree) (build_taxon_nodes scenario_tree) scenario_A
        species_percentage (''q1'', [''A'']) = Inr (Some scenario_A, Text ''1.00'', [])"
    by code_simp
  from species_percentage_range [OF h n, of "''q1''"] h l r show ?thesis by simp
qed

text \<open>
  Claim C4. For an anchor found in the tree and a query outside the two default cases, the
  \<^verbatim>\<open>node_activation\<close> method yields a vector with one entry per node of the walk from the
  anchor up to the MRCA: its length is the number of edges between anchor and MRCA plus one,
  hence 1 when the MRCA is the anchor. Every entry lies between 0 and 1, and a node of the walk
  whose leaf names were all seen at earlier nodes contributes the entry 0 at its own position.
\<close>

theorem node_activation_vector_shape:
  assumes "tree_and t anchor_specie = Inr anchor_node"
    and "\<not> (valid_taxids taxids = [] \<and> (list_all (\<lambda>taxid. taxid = ''no_hit'') taxids
             \<or> list_all (\<lambda>taxid. taxid = ''no_valid_taxid'') taxids))"
  shows "\<exists>mrca path v out.
           find_mrca_query (root_node t) (build_taxon_nodes t) anchor_node node_activation (qseqid, taxids) =
             Inr (Some mrca, Activation v, out)
           \<and> path_to_mrca anchor_node mrca = Inr path
           \<and> length v = length path
           \<and> length v = Suc (depth anchor_node - depth mrca)
           \<and> (mrca = anchor_node \<longrightarrow> length v = 1)
           \<and> (\<forall>x \<in> set v. 0 \<le> x \<and> x \<le> 1)
           \<and> (\<forall>k < length v.
                 set (get_leaf_names (sub (path ! k)))
                   \<subseteq> (\<Union>n \<in> set (take k path). set (get_leaf_names (sub n)))
                 \<longrightarrow> v ! k = 0)"
proof -
  from assms(1) have anchor: "node_of t anchor_node" by (rule tree_and_node_of)
  from assms(2) have n1: "\<not> (valid_taxids taxids = [] \<and> list_all (\<lambda>taxid. taxid = ''no_hit'') taxids)"
    and n2: "\<not> (valid_taxids taxids = [] \<and> list_all (\<lambda>taxid. taxid = ''no_valid_taxid'') taxids)"
    by blast+
  from mrca_exists [OF anchor, of "valid_taxids taxids"] obtain mrca
    where m: "get_common_ancestor (root_node t)
                (concat (candidate_taxa (build_taxon_nodes t) anchor_node (valid_taxids taxids))) = Inr mrca"
      and a: "mrca \<in> set (ancestors anchor_node)" by blast
  from path_to_mrca_ancestor [OF a] obtain path where p: "path_to_mrca anchor_node mrca = Inr path"
    and l: "length path = Suc (depth anchor_node - depth mrca)" by blast
  define obs where "obs = fst (observe (build_taxon_nodes t) (valid_taxids taxids) ({}, []))"
  define v where "v = activation_entries path obs {}"
  have q: "find_mrca_query (root_node t) (build_taxon_nodes t) anchor_node node_activation (qseqid, taxids) =
             Inr (Some mrca, Activation v, snd (observe (build_taxon_nodes t) (valid_taxids taxids) ({}, [])))"
    unfolding v_def obs_def by (rule query_node_activation [OF n1 n2 m p])
  have lv: "length v = length path" by (simp add: v_def length_activation_entries)
  have b: "\<forall>x \<in> set v. 0 \<le> x \<and> x \<le> 1"
    unfolding v_def using activation_entries_bounds by blast
  have z: "\<forall>k < length v.
                 set (get_leaf_names (sub (path ! k)))
                   \<subseteq> (\<Union>n \<in> set (take k path). set (get_leaf_names (sub n)))
                 \<longrightarrow> v ! k = 0"
  proof (intro allI impI)
    fix k
    assume "k < length v"
      and "set (get_leaf_names (sub (path ! k)))
                   \<subseteq> (\<Union>n \<in> set (take k path). set (get_leaf_names (sub n)))"
    then show "v ! k = 0"
      unfolding v_def using activation_entries_no_new [of k path "{}" obs]
      by (simp add: length_activation_entries)
  qed
  from l lv have one: "mrca = anchor_node \<longrightarrow> length v = 1" by simp
  from l lv have edges: "length v = Suc (depth anchor_node - depth mrca)" by simp
  show ?thesis
  proof (intro exI conjI)
    show "find_mrca_query (root_node t) (build_taxon_nodes t) anchor_node node_activation (qseqid, taxids) =
             Inr (Some mrca, Activation v, snd (observe (build_taxon_nodes t) (valid_taxids taxids) ({}, [])))"
      by (rule q)
    show "path_to_mrca anchor_node mrca = Inr path" by (rule p)
    show "length v = length path" by (rule lv)
    show "length v = Suc (depth anchor_node - depth mrca)" by (rule edges)
    show "mrca = anchor_node \<longrightarrow> length v = 1" by (rule one)
    show "\<forall>x \<in> set v. 0 \<le> x \<and> x \<le> 1" by (rule b)
    show "\<forall>k < length v.
                 set (get_leaf_names (sub (path ! k)))
                   \<subseteq> (\<Union>n \<in> set (take k path). set (get_leaf_names (sub n)))
                 \<longrightarrow> v ! k = 0" by (rule z)
  qed
qed

theorem node_activation_vector_shape_witness:
  "tree_and chain_tree ''A'' = Inr chain_A
   \<and> find_mrca_query (root_node chain_tree) (build_taxon_nodes chain_tree) chain_A node_activation
        (''q1'', [''C'']) = Inr (Some (root_node chain_tree), Activation [0, 0, 1 / 2], [])
   \<and> depth chain_A - depth (root_node chain_tree) = 2"
proof -
  have h: "tree_and chain_tree ''A'' = Inr chain_A" by code_simp
  have n: "\<not> (valid_taxids [''C''] = [] \<and> (list_all (\<lambda>taxid. taxid = ''no_hit'') [''C'']
             \<or> list_all (\<lambda>taxid. taxid = ''no_valid_taxid'') [''C'']))" by code_simp
  have r: "find_mrca_query (root_node chain_tree) (build_taxon_nodes chain_tree) chain_A node_activation
        (''q1'', [''C'']) = Inr (Some (root_node chain_tree), Activation [0, 0, 1 / 2], [])"
    by code_simp
  from node_activation_vector_shape [OF h n, of "''q1''"] obtain mrca v out where
    "find_mrca_query (root_node chain_tree) (build_taxon_nodes chain_tree) chain_A node_activation
        (''q1'', [''C'']) = Inr (Some mrca, Activation v, out)"
    and "length v = Suc (depth chain_A - depth mrca)" by blast
  with r have "depth chain_A - depth (root_node chain_tree) = 2" by simp
  with h r show ?thesis by simp
qed

text \<open>
  Claim C5. A candidate identifier without an entry in \<^verbatim>\<open>taxon_nodes\<close> is reported by a
  warning line and left out of the computation, as the claim says (lemma
  \<open>unknown_taxids_excluded\<close>). The second half of the claim does not hold of the source. When
  no valid identifier has an entry, the loop body does not fall back to the anchor: the anchor
  is appended to the candidate lists before they are tested for emptiness, so the branch that
  would report \<^verbatim>\<open>Not found\<close> is never taken (lemma \<open>not_found_branch_dead\<close>), and the common
  ancestor is asked for the anchor alone, which ete3 pairs with the tree it is called on. The
  row then names the root of the tree with the coverage \<^verbatim>\<open>0.00\<close>. The theorem evaluates the
  loop body on the scenario tree with the anchor \<open>A\<close> and the single unknown identifier \<open>X\<close>.
\<close>

theorem unknown_only_query_reaches_root:
  "tree_and scenario_tree ''A'' = Inr scenario_A
   \<and> build_taxon_nodes scenario_tree ''X'' = None
   \<and> find_mrca_query (root_node scenario_tree) (build_taxon_nodes scenario_tree) scenario_A
        species_percentage (''q1'', [''X'']) =
       Inr (Some scenario_Root, Text ''0.00'', [''Warning: taxid X not found in taxon_nodes''])
   \<and> result_row ''q1'' (Some scenario_Root, Text ''0.00'', [''Warning: taxid X not found in taxon_nodes''])
       = (''q1'', ''Root'', Text ''0.00'')
   \<and> find_mrca_query (root_node scenario_tree) (build_taxon_nodes scenario_tree) scenario_A
        species_percentage (''q1'', [''no_valid_taxid'']) =
       Inr (Some scenario_A, Text ''Assigned to focal species (no_valid_taxid)'',
            [''Warning: Query q1 hit a synthetic construct or was malformed.''])"
  by code_simp

text \<open>
  Claim C6, as amended. When the node reached after lifting has no entry in the collapse
  mapping, \<^verbatim>\<open>process_line\<close> hands the node to \<^verbatim>\<open>process_new_mrca\<close>, which returns the message
  \<^verbatim>\<open>Not found in mapping\<close> for the lifted key and writes to neither output file. The
  counterexample is the scenario of the specification: lifting two levels from \<open>A\<close> reaches
  \<open>Root\<close>, which the mapping lacks; the line is reported and the legacy file stays empty, also
  when the mapping has an entry for \<open>A\<close> that the legacy path would have written.
\<close>

theorem absent_key_reported:
  assumes "split (CHR 0x09) (strip line) = [qseqid, mrca_name, x]"
    and "nodes mrca_name = Some mrca_node"
    and "climb (nat levels_up) mrca_node = Some current_node"
    and "mapping_dict (name (sub current_node)) = None"
  shows "process_line line nodes include_topology mapping_dict levels_up fs =
           (Some (qseqid @ tab @ name (sub current_node) @ tab @ ''Not found in mapping'' @ newline), fs)"
  using assms by (simp add: process_line_def process_new_mrca_def)

theorem absent_key_not_legacy_counterexample:
  "process_line (''q1'' @ tab @ ''A'' @ tab @ ''0.50'' @ newline) (original_nodes scenario_tree) False
      scenario_mapping 2 \<lparr>old_outfile = [], new_outfile = []\<rparr> =
     (Some (''q1'' @ tab @ ''Root'' @ tab @ ''Not found in mapping'' @ newline),
      \<lparr>old_outfile = [], new_outfile = []\<rparr>)
   \<and> process_line (''q1'' @ tab @ ''A'' @ tab @ ''0.50'' @ newline) (original_nodes scenario_tree) False
      curated_mapping 2 \<lparr>old_outfile = [], new_outfile = []\<rparr> =
     (Some (''q1'' @ tab @ ''Root'' @ tab @ ''Not found in mapping'' @ newline),
      \<lparr>old_outfile = [], new_outfile = []\<rparr>)
   \<and> process_old_mrca ''q1'' ''A'' curated_mapping \<lparr>old_outfile = [], new_outfile = []\<rparr> =
     (None, \<lparr>old_outfile = [''q1'' @ tab @ ''Species A'' @ newline], new_outfile = []\<rparr>)"
  by code_simp

theorem absent_key_reported_witness:
  "split (CHR 0x09) (strip (''q2'' @ tab @ ''N2'' @ tab @ ''0.25'' @ newline)) = [''q2'', ''N2'', ''0.25'']
   \<and> original_nodes scenario_tree ''N2'' \<noteq> None
   \<and> scenario_mapping ''Root'' = None
   \<and> process_line (''q2'' @ tab @ ''N2'' @ tab @ ''0.25'' @ newline) (original_nodes scenario_tree) True
        scenario_mapping 1 \<lparr>old_outfile = [], new_outfile = []\<rparr> =
       (Some (''q2'' @ tab @ ''Root'' @ tab @ ''Not found in mapping'' @ newline),
        \<lparr>old_outfile = [], new_outfile = []\<rparr>)"
proof -
  define n2 where "n2 = TreeNode 1 (Node ''N2'' [Node ''C'' [], Node ''D'' []]) (Some scenario_Root)"
  have a: "split (CHR 0x09) (strip (''q2'' @ tab @ ''N2'' @ tab @ ''0.25'' @ newline)) = [''q2'', ''N2'', ''0.25'']"
    by code_simp
  have b: "original_nodes scenario_tree ''N2'' = Some n2" unfolding n2_def by code_simp
  have c: "climb (nat 1) n2 = Some scenario_Root" unfolding n2_def by code_simp
  have d: "scenario_mapping (name (sub scenario_Root)) = None" by code_simp
  have e: "name (sub scenario_Root) = ''Root''" by code_simp
  have f: "scenario_mapping ''Root'' = None" by code_simp
  from absent_key_reported [where nodes = "original_nodes scenario_tree" and mapping_dict = scenario_mapping
              and include_topology = True and fs = "\<lparr>old_outfile = [], new_outfile = []\<rparr>",
            OF a b c d] a b e f
  show ?thesis by simp
qed

text \<open>
  Claim C7. For every \<^verbatim>\<open>levels_up\<close>, when the node reached after lifting is mapped to the
  label \<^verbatim>\<open>Eukaryota\<close>, the line is handled by the legacy path \<^verbatim>\<open>process_old_mrca\<close> with the
  name of the original MRCA: nothing is written to the file of new classifications, and when
  the original MRCA has an entry in the mapping its label is written to the legacy file.
\<close>

theorem too_coarse_is_legacy:
  assumes "split (CHR 0x09) (strip line) = [qseqid, mrca_name, x]"
    and "nodes mrca_name = Some mrca_node"
    and "climb (nat levels_up) mrca_node = Some current_node"
    and "mapping_dict (name (sub current_node)) = Some (''Eukaryota'', taxid)"
  shows "process_line line nodes include_topology mapping_dict levels_up fs =
           process_old_mrca qseqid mrca_name mapping_dict fs
         \<and> new_outfile (snd (process_line line nodes include_topology mapping_dict levels_up fs)) =
             new_outfile fs
         \<and> (\<forall>taxon_name i. mapping_dict mrca_name = Some (taxon_name, i) \<longrightarrow>
              process_line line nodes include_topology mapping_dict levels_up fs =
                (None, fs\<lparr>old_outfile := old_outfile fs @ [qseqid @ tab @ taxon_name @ newline]\<rparr>))"
proof -
  have p: "process_line line nodes include_topology mapping_dict levels_up fs =
           process_old_mrca qseqid mrca_name mapping_dict fs"
    using assms by (simp add: process_line_def)
  moreover have "new_outfile (snd (process_old_mrca qseqid mrca_name mapping_dict fs)) = new_outfile fs"
    by (simp add: process_old_mrca_def split: option.splits)
  moreover have "\<forall>taxon_name i. mapping_dict mrca_name = Some (taxon_name, i) \<longrightarrow>
              process_old_mrca qseqid mrca_name mapping_dict fs =
                (None, fs\<lparr>old_outfile := old_outfile fs @ [qseqid @ tab @ taxon_name @ newline]\<rparr>)"
    by (simp add: process_old_mrca_def)
  ultimately show ?thesis by simp
qed

theorem too_coarse_is_legacy_witness:
  "split (CHR 0x09) (strip (''q1'' @ tab @ ''A'' @ tab @ ''0.50'' @ newline)) = [''q1'', ''A'', ''0.50'']
   \<and> original_nodes scenario_tree ''A'' = Some scenario_A
   \<and> climb (nat 2) scenario_A = Some scenario_Root
   \<and> coarse_mapping (name (sub scenario_Root)) = Some (''Eukaryota'', ''2759'')
   \<and> coarse_mapping ''A'' = Some (''Species A'', ''1'')
   \<and> process_line (''q1'' @ tab @ ''A'' @ tab @ ''0.50'' @ newline) (original_nodes scenario_tree) False
        coarse_mapping 2 \<lparr>old_outfile = [], new_outfile = []\<rparr> =
       (None, \<lparr>old_outfile = [''q1'' @ tab @ ''Species A'' @ newline], new_outfile = []\<rparr>)"
proof -
  have a: "split (CHR 0x09) (strip (''q1'' @ tab @ ''A'' @ tab @ ''0.50'' @ newline)) = [''q1'', ''A'', ''0.50'']"
    by code_simp
  have b: "original_nodes scenario_tree ''A'' = Some scenario_A" by code_simp
  have c: "climb (nat 2) scenario_A = Some scenario_Root" by code_simp
  have d: "coarse_mapping (name (sub scenario_Root)) = Some (''Eukaryota'', ''2759'')" by code_simp
  have e: "coarse_mapping ''A'' = Some (''Species A'', ''1'')" by code_simp
  from too_coarse_is_legacy [where nodes = "original_nodes scenario_tree" and mapping_dict = coarse_mapping
              and include_topology = False and fs = "\<lparr>old_outfile = [], new_outfile = []\<rparr>",
            OF a b c d] e
  have "process_line (''q1'' @ tab @ ''A'' @ tab @ ''0.50'' @ newline) (original_nodes scenario_tree) False
          coarse_mapping 2 \<lparr>old_outfile = [], new_outfile = []\<rparr> =
        (None, \<lparr>old_outfile = [], new_outfile = []\<rparr>
                 \<lparr>old_outfile := old_outfile \<lparr>old_outfile = [], new_outfile = []\<rparr>
                                    @ [''q1'' @ tab @ ''Species A'' @ newline]\<rparr>)"
    by blast
  with a b c d e show ?thesis by simp
qed

text \<open>
  Claim C8. On a tree whose internal nodes all have a name, \<^verbatim>\<open>assign_internal_node_names\<close>
  returns the tree unchanged with the flag \<open>False\<close>; running it again on its result gives the
  same outcome; and a run of \<^verbatim>\<open>find_mrca\<close> on such a tree writes no tree file.
\<close>

theorem annotated_tree_not_rewritten:
  "all_annotated t \<Longrightarrow>
     assign_internal_node_names t =
       (t, False, [''All internal nodes are already annotated. No need to rewrite the tree.''])
     \<and> assign_internal_node_names (fst (assign_internal_node_names t)) = assign_internal_node_names t
     \<and> (\<forall>r. find_mrca t taxid_mapping anchor_specie method = Inr r \<longrightarrow> output_tree r = None)"
  by (auto simp: assign_internal_node_names_def find_mrca_def Let_def split: sum.splits)

theorem annotated_tree_not_rewritten_witness:
  "all_annotated scenario_tree
   \<and> assign_internal_node_names scenario_tree =
       (scenario_tree, False, [''All internal nodes are already annotated. No need to rewrite the tree.''])
   \<and> find_mrca scenario_tree [(''q1'', [''C'', ''D''])] ''A'' species_percentage =
       Inr \<lparr>results = [(''q1'', ''Root'', Text ''0.50'')],
            printed = [''All internal nodes are already annotated. No need to rewrite the tree.'',
                       ''The tree was not modified and will not be rewritten.''],
            output_tree = None\<rparr>"
proof -
  have h: "all_annotated scenario_tree" by code_simp
  have r: "find_mrca scenario_tree [(''q1'', [''C'', ''D''])] ''A'' species_percentage =
       Inr \<lparr>results = [(''q1'', ''Root'', Text ''0.50'')],
            printed = [''All internal nodes are already annotated. No need to rewrite the tree.'',
                       ''The tree was not modified and will not be rewritten.''],
            output_tree = None\<rparr>"
    by code_simp
  from annotated_tree_not_rewritten [OF h, of "[(''q1'', [''C'', ''D''])]" "''A''" species_percentage] h r
  show ?thesis by simp
qed

text \<open>
  Claim C9, as amended. The source does not reject a candidate list that mixes sentinels
  with real identifiers: it filters the sentinels out, and the query is resolved exactly as
  the list of its real identifiers would be. The counterexample: the list of \<^verbatim>\<open>no_hit\<close> and
  \<open>C\<close> is processed and yields a row with the MRCA \<open>Root\<close>.
\<close>

theorem sentinels_filtered:
  "valid_taxids taxids \<noteq> [] \<Longrightarrow>
     find_mrca_query tree taxon_nodes anchor_node method (qseqid, taxids) =
     find_mrca_query tree taxon_nodes anchor_node method (qseqid, valid_taxids taxids)"
  using valid_not_sentinel [of taxids] valid_not_sentinel [of "valid_taxids taxids"]
  by (simp add: find_mrca_query_def valid_taxids_idem)

theorem mixed_list_processed_counterexample:
  "find_mrca_query scenario_Root (build_taxon_nodes scenario_tree) scenario_A species_percentage
     (''q1'', [''no_hit'', ''C'']) = Inr (Some scenario_Root, Text ''0.25'', [])"
  by code_simp

theorem sentinels_filtered_witness:
  "valid_taxids [''no_valid_taxid'', ''C'', ''no_hit'', ''D''] = [''C'', ''D'']
   \<and> find_mrca_query scenario_Root (build_taxon_nodes scenario_tree) scenario_A species_percentage
        (''q1'', [''no_valid_taxid'', ''C'', ''no_hit'', ''D'']) =
      find_mrca_query scenario_Root (build_taxon_nodes scenario_tree) scenario_A species_percentage
        (''q1'', [''C'', ''D''])"
proof -
  have v: "valid_taxids [''no_valid_taxid'', ''C'', ''no_hit'', ''D''] = [''C'', ''D'']" by code_simp
  then have "valid_taxids [''no_valid_taxid'', ''C'', ''no_hit'', ''D''] \<noteq> []" by simp
  from sentinels_filtered [OF this, of scenario_Root "build_taxon_nodes scenario_tree" scenario_A species_percentage "''q1''"] v
  show ?thesis by simp
qed

text \<open>
  Claim C10. The renaming pass leaves every non-empty name as it was, at every position of
  the tree. A position whose name differs after the pass had the empty name before and has a
  name of the form \<^verbatim>\<open>Internal_\<close> followed by a counter value afterwards.
\<close>

theorem assign_keeps_existing_names:
  "(name_at t q = Some x \<and> x \<noteq> [] \<longrightarrow> name_at (fst (assign_internal_node_names t)) q = Some x)
   \<and> (name_at (fst (assign_internal_node_names t)) q' \<noteq> name_at t q'
        \<longrightarrow> name_at t q' = Some []
            \<and> (\<exists>k. name_at (fst (assign_internal_node_names t)) q' = Some (''Internal_'' @ str_nat k)))"
  using assign_loop_keeps [of t q x "traverse t" 1] assign_loop_changed [of "traverse t" t 1 q']
  by (simp add: assign_internal_node_names_def)

theorem assign_keeps_existing_names_witness:
  "name_at unnamed_tree [0] = Some ''A''
   \<and> name_at (fst (assign_internal_node_names unnamed_tree)) [0] = Some ''A''
   \<and> name_at unnamed_tree [] = Some []
   \<and> name_at (fst (assign_internal_node_names unnamed_tree)) [] = Some ''Internal_1''"
proof -
  have a: "name_at unnamed_tree [0] = Some ''A''" by code_simp
  have b: "name_at unnamed_tree [] = Some []" by code_simp
  have c: "name_at (fst (assign_internal_node_names unnamed_tree)) [] = Some ''Internal_1''"
    by code_simp
  from assign_keeps_existing_names [of unnamed_tree "[0]" "''A''" "[]"] a b c show ?thesis by simp
qed

end
